theory Spec2Isabelle
  imports Complex_Main "HOL-Library.Word"
begin

section \<open>The histogram accumulator of the raw data converter\<close>

text \<open>
  A shallow embedding of \<^verbatim>\<open>host/analysis/RawDataConverter/Histogram.cpp\<close>.
  The class \<^verbatim>\<open>Histogram\<close> becomes a record of its members, every method a function
  that takes the object and returns it updated, every \<^verbatim>\<open>throw\<close> a value of the
  type \<open>error\<close>.

  The header \<^verbatim>\<open>Histogram.h\<close> is not among the sources. What the code takes from it
  enters the model as follows.
  \<^item> \<^verbatim>\<open>RAW_DATA_MAX_COLUMN\<close> and \<^verbatim>\<open>RAW_DATA_MAX_ROW\<close> are parameters \<open>C\<close> and \<open>R\<close>
    of every function that uses them.
  \<^item> \<^verbatim>\<open>unsigned int\<close> is \<open>32 word\<close>, \<^verbatim>\<open>unsigned short\<close> is \<open>16 word\<close> and
    \<^verbatim>\<open>unsigned long\<close> is \<open>64 word\<close>.
  \<^item> The members of the class have the types with which the source reads and writes
    them.
  \<^item> A pointer member is \<open>None\<close> when it is null and \<open>Some xs\<close> when it points to the
    block of memory \<open>xs\<close>. The lengths the object stores beside \<^verbatim>\<open>_parInfo\<close> and
    \<^verbatim>\<open>_metaEventIndex\<close> are members of their own, as in the source, and need not be
    the lengths of the blocks.
  \<^item> An access through a null pointer or outside a block, and \<^verbatim>\<open>front()\<close> or
    \<^verbatim>\<open>back()\<close> of an empty vector, have no defined behaviour in C++; the model
    returns the error \<open>UndefinedBehaviour\<close> for them.
  \<^item> Offsets computed in \<^verbatim>\<open>long\<close> are natural numbers.
\<close>

type_synonym uint = "32 word"
type_synonym ushort = "16 word"
type_synonym ulong = "64 word"

text \<open>
  Modelled from the spec: the structures \<^verbatim>\<open>HitInfo\<close> and \<^verbatim>\<open>ParInfo\<close> are
  declared in the header. The specification gives a hit a 1-based column, a 1-based
  row, a time over threshold, a relative BCID and an event number, and a parameter
  entry one scan parameter value. A field has the width of the variable that the
  source copies it into: \<^verbatim>\<open>unsigned short\<close> for the column, \<^verbatim>\<open>unsigned int\<close>
  for row, ToT, relative BCID and scan parameter, \<^verbatim>\<open>unsigned long\<close> for the event
  number. The values of a narrower unsigned field are among those of the wider one,
  and the conversions of the source agree on them.
\<close>

record HitInfo =
  eventNumber :: ulong
  relativeBCID :: uint
  column :: ushort
  row :: uint
  tot :: uint

record ParInfo =
  scanParameter :: uint

text \<open>
  The exceptions of the source are integers; the constructors carry the names the
  specification gives them. Where the source writes a message with \<^verbatim>\<open>error(...)\<close>
  before it throws, the constructor carries the values the message is built from.
\<close>

datatype error =
    InvalidColumn \<comment> \<open>\<^verbatim>\<open>throw 20\<close>\<close>
  | InvalidRow \<comment> \<open>\<^verbatim>\<open>throw 21\<close>\<close>
  | ParameterIndexOutOfRange uint uint uint
      \<comment> \<open>\<^verbatim>\<open>throw 22\<close>; logged: \<^verbatim>\<open>tParIndex\<close>, \<^verbatim>\<open>_minParameterValue\<close>, \<^verbatim>\<open>_maxParameterValue\<close>\<close>
  | CorrelationError ulong ulong uint
      \<comment> \<open>\<^verbatim>\<open>throw 23\<close>; logged: the event number, the last boundary, \<^verbatim>\<open>_lastMetaEventIndex\<close>\<close>
  | InvalidTot \<comment> \<open>\<^verbatim>\<open>throw 24\<close>\<close>
  | InvalidBcid \<comment> \<open>\<^verbatim>\<open>throw 25\<close>\<close>
  | UndefinedBehaviour

record Histogram =
  m_metaEventIndex :: "ulong list option"
  m_nMetaEventIndexLength :: uint
  m_parInfo :: "ParInfo list option"
  m_nParInfoLength :: uint
  m_lastMetaEventIndex :: uint
  m_occupancy :: "uint list option"
  m_relBcid :: "ulong list option"
  m_tot :: "ulong list option"
  m_NparameterValues :: uint
  m_minParameterValue :: uint
  m_maxParameterValue :: uint
  m_parameterValues :: "uint list"
  m_createOccHist :: bool
  m_createRelBCIDhist :: bool
  m_createTotHist :: bool

subsection \<open>Allocation and reset of the ToT and relative BCID arrays\<close>

text \<open>
  \<^verbatim>\<open>new unsigned long[16]\<close> returns a block whose contents are indeterminate: the
  model takes them as a parameter \<open>junk\<close>, the value found at each index.
  \<^verbatim>\<open>delete\<close> releases the block and the pointer is set to null.
\<close>

definition deleteTotArray :: "Histogram \<Rightarrow> Histogram" where
  "deleteTotArray h = h\<lparr>m_tot := None\<rparr>"

definition allocateTotArray :: "(nat \<Rightarrow> ulong) \<Rightarrow> Histogram \<Rightarrow> Histogram" where
  "allocateTotArray junk h = (deleteTotArray h)\<lparr>m_tot := Some (map junk [0..<16])\<rparr>"

text \<open>The loop \<^verbatim>\<open>for (i = 0; i < 16; i++) a[i] = 0\<close>, from index \<open>i\<close> on.\<close>

function zero16 :: "nat \<Rightarrow> ulong list \<Rightarrow> error + ulong list" where
  "zero16 i xs =
     (if i < 16
      then (if i < length xs then zero16 (i + 1) (xs[i := 0]) else Inl UndefinedBehaviour)
      else Inr xs)"
  by pat_completeness auto
termination
  by (relation "measure (\<lambda>(i, xs). 16 - i)") auto

declare zero16.simps [simp del]

definition resetTotArray :: "Histogram \<Rightarrow> error + Histogram" where
  "resetTotArray h =
     (case m_tot h of
        None \<Rightarrow> Inl UndefinedBehaviour
      | Some xs \<Rightarrow>
          (case zero16 0 xs of Inl e \<Rightarrow> Inl e | Inr ys \<Rightarrow> Inr (h\<lparr>m_tot := Some ys\<rparr>)))"

definition createTotHist :: "(nat \<Rightarrow> ulong) \<Rightarrow> bool \<Rightarrow> Histogram \<Rightarrow> error + Histogram" where
  "createTotHist junk CreateTotHist h =
     resetTotArray (allocateTotArray junk (h\<lparr>m_createTotHist := CreateTotHist\<rparr>))"

definition deleteRelBcidArray :: "Histogram \<Rightarrow> Histogram" where
  "deleteRelBcidArray h = h\<lparr>m_relBcid := None\<rparr>"

definition allocateRelBcidArray :: "(nat \<Rightarrow> ulong) \<Rightarrow> Histogram \<Rightarrow> Histogram" where
  "allocateRelBcidArray junk h =
     (deleteRelBcidArray h)\<lparr>m_relBcid := Some (map junk [0..<16])\<rparr>"

definition resetRelBcidArray :: "Histogram \<Rightarrow> error + Histogram" where
  "resetRelBcidArray h =
     (case m_relBcid h of
        None \<Rightarrow> Inl UndefinedBehaviour
      | Some xs \<Rightarrow>
          (case zero16 0 xs of Inl e \<Rightarrow> Inl e | Inr ys \<Rightarrow> Inr (h\<lparr>m_relBcid := Some ys\<rparr>)))"

definition createRelBCIDHist ::
  "(nat \<Rightarrow> ulong) \<Rightarrow> bool \<Rightarrow> Histogram \<Rightarrow> error + Histogram" where
  "createRelBCIDHist junk CreateRelBCIDHist h =
     resetRelBcidArray
       (allocateRelBcidArray junk (h\<lparr>m_createRelBCIDhist := CreateRelBCIDHist\<rparr>))"

definition createOccupancyHist :: "bool \<Rightarrow> Histogram \<Rightarrow> Histogram" where
  "createOccupancyHist CreateOccHist h = h\<lparr>m_createOccHist := CreateOccHist\<rparr>"

subsection \<open>Correlation of event numbers with scan parameters\<close>

text \<open>
  The loop of \<^verbatim>\<open>getEventParameter\<close>, from index \<open>i\<close> on, over the blocks \<open>ms\<close>
  (\<^verbatim>\<open>_metaEventIndex\<close>) and \<open>ps\<close> (\<^verbatim>\<open>_parInfo\<close>); \<open>bound\<close> is
  \<^verbatim>\<open>_nMetaEventIndexLength-1\<close>. The index stays below \<open>bound\<close>, which is an
  \<^verbatim>\<open>unsigned int\<close>, so \<^verbatim>\<open>++i\<close> and \<^verbatim>\<open>i+1\<close> do not wrap.
\<close>

datatype scan_result = Found nat | Exhausted | Fault

function scanMetaEventIndex ::
  "ulong list \<Rightarrow> ParInfo list \<Rightarrow> nat \<Rightarrow> ulong \<Rightarrow> nat \<Rightarrow> scan_result" where
  "scanMetaEventIndex ms ps bound rEventNumber i =
     (if i < bound
      then (if i + 1 < length ms
            then (if ms ! (i + 1) > rEventNumber \<or> ms ! (i + 1) < ms ! i
                  then (if i < length ps then Found i else Fault)
                  else scanMetaEventIndex ms ps bound rEventNumber (i + 1))
            else Fault)
      else Exhausted)"
  by pat_completeness auto
termination
  by (relation "measure (\<lambda>(ms, ps, bound, ev, i). bound - i)") auto

declare scanMetaEventIndex.simps [simp del]

definition getEventParameter :: "Histogram \<Rightarrow> ulong \<Rightarrow> (error + uint) \<times> Histogram" where
  "getEventParameter h rEventNumber =
     (case m_parInfo h of
        None \<Rightarrow> (Inr 0, h)
      | Some ps \<Rightarrow>
          (case m_metaEventIndex h of
             None \<Rightarrow> (Inl UndefinedBehaviour, h)
           | Some ms \<Rightarrow>
               (case scanMetaEventIndex ms ps (unat (m_nMetaEventIndexLength h - 1))
                       rEventNumber (unat (m_lastMetaEventIndex h)) of
                  Found i \<Rightarrow>
                    (Inr (scanParameter (ps ! i)), h\<lparr>m_lastMetaEventIndex := of_nat i\<rparr>)
                | Fault \<Rightarrow> (Inl UndefinedBehaviour, h)
                | Exhausted \<Rightarrow>
                    (let l = unat (m_nMetaEventIndexLength h - 1) in
                     if l < length ms
                     then (if ms ! l \<le> rEventNumber
                           then (if l < length ps
                                 then (Inr (scanParameter (ps ! l)), h)
                                 else (Inl UndefinedBehaviour, h))
                           else (Inl (CorrelationError rEventNumber (ms ! l)
                                        (m_lastMetaEventIndex h)), h))
                     else (Inl UndefinedBehaviour, h)))))"

text \<open>
  The loop of \<^verbatim>\<open>getParIndex\<close> over the vector \<^verbatim>\<open>_parameterValues\<close>, from index
  \<open>i\<close> on. The result is an \<^verbatim>\<open>unsigned int\<close>.
\<close>

function getParIndex_from :: "uint list \<Rightarrow> uint \<Rightarrow> nat \<Rightarrow> nat" where
  "getParIndex_from vs rEventParameter i =
     (if i < length vs
      then (if vs ! i = rEventParameter then i
            else getParIndex_from vs rEventParameter (i + 1))
      else 0)"
  by pat_completeness auto
termination
  by (relation "measure (\<lambda>(vs, v, i). length vs - i)") auto

declare getParIndex_from.simps [simp del]

definition getParIndex :: "Histogram \<Rightarrow> uint \<Rightarrow> uint" where
  "getParIndex h rEventParameter =
     of_nat (getParIndex_from (m_parameterValues h) rEventParameter 0)"

definition getNparameters :: "Histogram \<Rightarrow> uint" where
  "getNparameters h = m_NparameterValues h"

definition getMinParameter :: "Histogram \<Rightarrow> uint" where
  "getMinParameter h = m_minParameterValue h"

definition getMaxParameter :: "Histogram \<Rightarrow> uint" where
  "getMaxParameter h = m_maxParameterValue h"

subsection \<open>Hit ingestion\<close>

text \<open>\<^verbatim>\<open>a[i] += 1\<close> on a block of counters; the addition wraps at the width of the counter.\<close>

definition increment :: "'a::len word list option \<Rightarrow> nat \<Rightarrow> error + 'a word list option" where
  "increment a i =
     (case a of
        None \<Rightarrow> Inl UndefinedBehaviour
      | Some xs \<Rightarrow> if i < length xs then Inr (Some (xs[i := xs ! i + 1])) else Inl UndefinedBehaviour)"

text \<open>The offset of a cell of the occupancy array, as \<^verbatim>\<open>addHits\<close> computes it.\<close>

definition occupancyIndex :: "nat \<Rightarrow> nat \<Rightarrow> nat \<Rightarrow> nat \<Rightarrow> nat \<Rightarrow> nat" where
  "occupancyIndex C R i j k = i + j * C + k * C * R"

text \<open>The three conditional increments that end the body of the loop of \<^verbatim>\<open>addHits\<close>.\<close>

definition fillHistograms ::
  "nat \<Rightarrow> nat \<Rightarrow> Histogram \<Rightarrow> ushort \<Rightarrow> uint \<Rightarrow> uint \<Rightarrow> uint \<Rightarrow> uint \<Rightarrow> error option \<times> Histogram" where
  "fillHistograms C R h tColumnIndex tRowIndex tParIndex tRelBcid tTot =
     (case (if m_createOccHist h
            then increment (m_occupancy h)
                   (occupancyIndex C R (unat tColumnIndex) (unat tRowIndex) (unat tParIndex))
            else Inr (m_occupancy h)) of
        Inl e \<Rightarrow> (Some e, h)
      | Inr occ \<Rightarrow>
          (let h1 = h\<lparr>m_occupancy := occ\<rparr> in
           case (if m_createRelBCIDhist h1
                 then increment (m_relBcid h1) (unat tRelBcid)
                 else Inr (m_relBcid h1)) of
             Inl e \<Rightarrow> (Some e, h1)
           | Inr rb \<Rightarrow>
               (let h2 = h1\<lparr>m_relBcid := rb\<rparr> in
                case (if m_createTotHist h2
                      then increment (m_tot h2) (unat tTot)
                      else Inr (m_tot h2)) of
                  Inl e \<Rightarrow> (Some e, h2)
                | Inr t \<Rightarrow> (None, h2\<lparr>m_tot := t\<rparr>))))"

text \<open>
  One pass through the body of the loop of \<^verbatim>\<open>addHits\<close>. The result is the error
  thrown, if any, and the object as the pass leaves it. The column index is compared
  as an \<^verbatim>\<open>int\<close>, the other indices as \<^verbatim>\<open>unsigned int\<close>; the test
  \<^verbatim>\<open>tParIndex < 0\<close> is never true of an unsigned value.
\<close>

definition addHit :: "nat \<Rightarrow> nat \<Rightarrow> Histogram \<Rightarrow> HitInfo \<Rightarrow> error option \<times> Histogram" where
  "addHit C R h hit =
     (let tColumnIndex = column hit - 1 in
      if int C - 1 < uint tColumnIndex then (Some InvalidColumn, h)
      else
        let tRowIndex = row hit - 1 in
        if (of_nat R - 1 :: uint) < tRowIndex then (Some InvalidRow, h)
        else
          let tTot = tot hit in
          if 15 < tTot then (Some InvalidTot, h)
          else
            let tRelBcid = relativeBCID hit in
            if 15 < tRelBcid then (Some InvalidBcid, h)
            else
              (case getEventParameter h (eventNumber hit) of
                 (Inl e, h1) \<Rightarrow> (Some e, h1)
               | (Inr tEventParameter, h1) \<Rightarrow>
                   (let tParIndex = getParIndex h1 tEventParameter in
                    if getNparameters h1 - 1 < tParIndex
                    then (Some (ParameterIndexOutOfRange tParIndex
                                  (m_minParameterValue h1) (m_maxParameterValue h1)), h1)
                    else fillHistograms C R h1 tColumnIndex tRowIndex tParIndex tRelBcid tTot)))"

text \<open>
  \<^verbatim>\<open>addHits\<close>: the batch is the list of the first \<^verbatim>\<open>rNhits\<close> elements of
  \<^verbatim>\<open>rHitInfo\<close>. An exception leaves the loop, and the object stays as it was when
  the exception was thrown.
\<close>

fun addHits :: "nat \<Rightarrow> nat \<Rightarrow> Histogram \<Rightarrow> HitInfo list \<Rightarrow> error option \<times> Histogram" where
  "addHits C R h [] = (None, h)"
| "addHits C R h (hit # hits) =
     (case addHit C R h hit of
        (Some e, h') \<Rightarrow> (Some e, h')
      | (None, h') \<Rightarrow> addHits C R h' hits)"

subsection \<open>Scan parameters and the occupancy array\<close>

text \<open>
  \<^verbatim>\<open>std::set<int>\<close> built from a range of \<^verbatim>\<open>unsigned int\<close>: every value is
  converted to \<^verbatim>\<open>int\<close>, that is, its 32 bits are read as two's complement, and
  the set keeps one copy of each value, in the order of \<^verbatim>\<open>int\<close>. The model keeps
  the 32 bits and compares them with \<open>sint\<close>.
\<close>

fun set_int_insert :: "uint \<Rightarrow> uint list \<Rightarrow> uint list" where
  "set_int_insert v [] = [v]"
| "set_int_insert v (x # xs) =
     (if sint v < sint x then v # x # xs
      else if sint x < sint v then x # set_int_insert v xs
      else x # xs)"

definition std_set_int :: "uint list \<Rightarrow> uint list" where
  "std_set_int xs = foldl (\<lambda>s v. set_int_insert v s) [] xs"

text \<open>
  \<^verbatim>\<open>std::unique\<close> moves the first element of every run of equal elements to the
  front and returns the end of that part; the vector keeps its length, and the elements
  behind the returned position are not written.
\<close>

definition std_unique :: "'a list \<Rightarrow> nat \<times> 'a list" where
  "std_unique xs = (let ys = remdups_adj xs in (length ys, ys @ drop (length ys) xs))"

definition setParameterLimits :: "Histogram \<Rightarrow> error + Histogram" where
  "setParameterLimits h =
     (let block = (case m_parInfo h of None \<Rightarrow> [] | Some ps \<Rightarrow> ps) in
      if length block < unat (m_nParInfoLength h) then Inl UndefinedBehaviour
      else
        let tParameterValues = sort (map scanParameter (take (unat (m_nParInfoLength h)) block));
            tSet = std_set_int tParameterValues;
            parameterValues = snd (std_unique tSet)
        in if tParameterValues = [] then Inl UndefinedBehaviour
           else Inr (h\<lparr>m_parameterValues := parameterValues,
                       m_minParameterValue := hd tParameterValues,
                       m_maxParameterValue := last tParameterValues,
                       m_NparameterValues := of_nat (fst (std_unique tParameterValues))\<rparr>))"

definition deleteOccupancyArray :: "Histogram \<Rightarrow> Histogram" where
  "deleteOccupancyArray h = h\<lparr>m_occupancy := None\<rparr>"

text \<open>The number of elements that \<^verbatim>\<open>allocateOccupancyArray\<close> asks for, computed in \<^verbatim>\<open>long\<close>.\<close>

definition occupancySize :: "nat \<Rightarrow> nat \<Rightarrow> uint \<Rightarrow> int" where
  "occupancySize C R n =
     (int C - 1) + (int R - 1) * int C + (uint n - 1) * int C * int R + 1"

definition allocateOccupancyArray :: "nat \<Rightarrow> nat \<Rightarrow> (nat \<Rightarrow> uint) \<Rightarrow> Histogram \<Rightarrow> Histogram" where
  "allocateOccupancyArray C R junk h =
     (deleteOccupancyArray h)
       \<lparr>m_occupancy := Some (map junk [0..<nat (occupancySize C R (getNparameters h))])\<rparr>"

text \<open>
  \<^verbatim>\<open>resetOccupancyArray\<close>: the offsets written, in the order of the three nested
  loops. Behaviour is defined when each of them lies inside the block.
\<close>

definition occupancyCells :: "nat \<Rightarrow> nat \<Rightarrow> uint \<Rightarrow> nat list" where
  "occupancyCells C R n =
     concat (map (\<lambda>i. concat (map (\<lambda>j. map (\<lambda>k. occupancyIndex C R i j k) [0..<unat n])
                                    [0..<R]))
                 [0..<C])"

definition resetOccupancyArray :: "nat \<Rightarrow> nat \<Rightarrow> Histogram \<Rightarrow> error + Histogram" where
  "resetOccupancyArray C R h =
     (let cells = occupancyCells C R (getNparameters h) in
      if cells = [] then Inr h
      else (case m_occupancy h of
              None \<Rightarrow> Inl UndefinedBehaviour
            | Some xs \<Rightarrow>
                if list_all (\<lambda>c. c < length xs) cells
                then Inr (h\<lparr>m_occupancy := Some (foldl (\<lambda>a c. a[c := 0]) xs cells)\<rparr>)
                else Inl UndefinedBehaviour))"

definition addScanParameter ::
  "nat \<Rightarrow> nat \<Rightarrow> (nat \<Rightarrow> uint) \<Rightarrow> uint \<Rightarrow> ParInfo list option \<Rightarrow> Histogram \<Rightarrow> error + Histogram" where
  "addScanParameter C R junk rNparInfoLength rParInfo h =
     (case setParameterLimits (h\<lparr>m_nParInfoLength := rNparInfoLength, m_parInfo := rParInfo\<rparr>) of
        Inl e \<Rightarrow> Inl e
      | Inr h1 \<Rightarrow> resetOccupancyArray C R (allocateOccupancyArray C R junk h1))"

definition addMetaEventIndex :: "uint \<Rightarrow> ulong list option \<Rightarrow> Histogram \<Rightarrow> Histogram" where
  "addMetaEventIndex rNmetaEventIndexLength rMetaEventIndex h =
     h\<lparr>m_nMetaEventIndexLength := rNmetaEventIndexLength, m_metaEventIndex := rMetaEventIndex\<rparr>"

definition setNoScanParameter :: "nat \<Rightarrow> nat \<Rightarrow> (nat \<Rightarrow> uint) \<Rightarrow> Histogram \<Rightarrow> error + Histogram" where
  "setNoScanParameter C R junk h =
     resetOccupancyArray C R
       (allocateOccupancyArray C R junk ((deleteOccupancyArray h)\<lparr>m_NparameterValues := 1\<rparr>))"

text \<open>
  The constructor. It leaves \<^verbatim>\<open>_nMetaEventIndexLength\<close> and \<^verbatim>\<open>_nParInfoLength\<close>
  without a value; the model takes what they hold as parameters.
\<close>

definition Histogram_new :: "uint \<Rightarrow> uint \<Rightarrow> Histogram" where
  "Histogram_new nMeta nPar =
     \<lparr>m_metaEventIndex = None, m_nMetaEventIndexLength = nMeta,
      m_parInfo = None, m_nParInfoLength = nPar,
      m_lastMetaEventIndex = 0,
      m_occupancy = None, m_relBcid = None, m_tot = None,
      m_NparameterValues = 1, m_minParameterValue = 0, m_maxParameterValue = 0,
      m_parameterValues = [],
      m_createOccHist = False, m_createRelBCIDhist = False, m_createTotHist = False\<rparr>"

subsection \<open>Threshold and noise\<close>

text \<open>
  \<^verbatim>\<open>double\<close> and its arithmetic belong to the platform, not to the program: the model
  takes the type \<open>'d\<close> of the doubles and the operations the source uses on them as a
  parameter. \<open>d_lit\<close> is the literal \<^verbatim>\<open>3.141592653589893238462643383\<close> of the source
  and \<open>d_two\<close> the \<^verbatim>\<open>int\<close> 2 converted to \<^verbatim>\<open>double\<close>; \<open>d_to_int\<close> is the
  conversion \<^verbatim>\<open>(int)\<close>, whose result the source stores in an \<^verbatim>\<open>unsigned int\<close>.
\<close>

record 'd double_ops =
  d_of_uint :: "uint \<Rightarrow> 'd"
  d_sub :: "'d \<Rightarrow> 'd \<Rightarrow> 'd"
  d_mul :: "'d \<Rightarrow> 'd \<Rightarrow> 'd"
  d_div :: "'d \<Rightarrow> 'd \<Rightarrow> 'd"
  d_less :: "'d \<Rightarrow> 'd \<Rightarrow> bool"
  d_sqrt :: "'d \<Rightarrow> 'd"
  d_to_int :: "'d \<Rightarrow> uint"
  d_lit :: 'd
  d_two :: 'd

text \<open>
  The body of the two nested loops over the pixels, for the pixel of column index \<open>i\<close>
  and row index \<open>j\<close>: the threshold and the noise written for it. \<open>M\<close>, \<open>mu1\<close> and
  \<open>mu2\<close> are \<^verbatim>\<open>unsigned int\<close>, and so is \<^verbatim>\<open>A - _occupancy[...]\<close>.
\<close>

definition pixelThresholdNoise ::
  "'d double_ops \<Rightarrow> nat \<Rightarrow> nat \<Rightarrow> uint list \<Rightarrow> uint \<Rightarrow> uint \<Rightarrow> uint \<Rightarrow> nat \<Rightarrow> nat \<Rightarrow> 'd \<times> 'd" where
  "pixelThresholdNoise ops C R occ q_max n d i j =
     (let A = (100 :: uint);
          M = foldl (\<lambda>M k. M + occ ! occupancyIndex C R i j k) (0 :: uint) [0..<unat n];
          threshold =
            d_sub ops (d_of_uint ops q_max)
              (d_div ops (d_mul ops (d_of_uint ops d) (d_of_uint ops M)) (d_of_uint ops A));
          mu1 = foldl (\<lambda>mu1 k. if d_less ops (d_of_uint ops (of_nat k)) threshold
                                then mu1 + occ ! occupancyIndex C R i j k else mu1)
                  (0 :: uint) [0..<unat n];
          mu2 = foldl (\<lambda>mu2 k. if d_less ops threshold (d_of_uint ops (of_nat k))
                                then mu2 + (A - occ ! occupancyIndex C R i j k) else mu2)
                  (0 :: uint) [0..<unat n];
          noise =
            d_mul ops
              (d_div ops (d_mul ops (d_of_uint ops d) (d_of_uint ops (mu1 + mu2)))
                 (d_of_uint ops A))
              (d_sqrt ops (d_div ops (d_lit ops) (d_two ops)))
      in (threshold, noise))"

text \<open>
  \<^verbatim>\<open>calculateThresholdScanArrays\<close>, with the two arrays of the caller as blocks
  \<open>rMuArray\<close> and \<open>rSigmaArray\<close>; the result is the two blocks as the call leaves
  them. Behaviour is defined when every offset read or written lies inside its block.
  What the source prints for the pixel (3, 15) changes neither the object nor the
  arrays.
\<close>

definition calculateThresholdScanArrays ::
  "'d double_ops \<Rightarrow> nat \<Rightarrow> nat \<Rightarrow> Histogram \<Rightarrow> 'd list \<Rightarrow> 'd list \<Rightarrow> error + 'd list \<times> 'd list" where
  "calculateThresholdScanArrays ops C R h rMuArray rSigmaArray =
     (if m_NparameterValues h < 2 then Inr (rMuArray, rSigmaArray)
      else
        let q_min = getMinParameter h;
            q_max = getMaxParameter h;
            n = getNparameters h;
            d = d_to_int ops
                  (d_div ops (d_sub ops (d_of_uint ops (getMaxParameter h))
                                        (d_of_uint ops (getMinParameter h)))
                             (d_of_uint ops (n - 1)));
            pixels = concat (map (\<lambda>i. map (\<lambda>j. (i, j)) [0..<R]) [0..<C])
        in if pixels = [] then Inr (rMuArray, rSigmaArray)
           else
             (case m_occupancy h of
                None \<Rightarrow> Inl UndefinedBehaviour
              | Some occ \<Rightarrow>
                  if list_all (\<lambda>c. c < length occ) (occupancyCells C R n)
                     \<and> list_all (\<lambda>(i, j). i + j * C < length rMuArray
                                          \<and> i + j * C < length rSigmaArray) pixels
                  then Inr (foldl (\<lambda>(mu, sigma) (i, j).
                                     let (threshold, noise) =
                                           pixelThresholdNoise ops C R occ q_max n d i j
                                     in (mu[i + j * C := threshold], sigma[i + j * C := noise]))
                                  (rMuArray, rSigmaArray) pixels)
                  else Inl UndefinedBehaviour))"

subsection \<open>Double arithmetic as rounded real arithmetic\<close>

text \<open>
  A finite double is a real number, and an operation on doubles is the operation on
  the reals followed by a rounding \<open>rnd\<close>. \<open>rounded_ops rnd\<close> are the operations
  of the estimator under such a rounding: the conversion of an \<^verbatim>\<open>unsigned int\<close>,
  the arithmetic, the square root, the conversion \<^verbatim>\<open>(int)\<close>, which truncates
  towards zero, and the two constants. Infinities, NaN and values beyond the largest
  double are outside the model; the estimator divides by \<open>n - 1\<close>, by 100 and by 2
  only, none of them zero.

  \<open>binary64_round\<close> is the rounding of IEEE 754 binary64 arithmetic, to the nearest
  number with a significand of 53 bits, ties to the even one; below \<open>1 / 2 ^ 1022\<close>
  the spacing stays that of the smallest exponent. \<open>binary64_rounding\<close> collects the
  two properties of it that the proofs use: integers up to \<open>2 ^ 53\<close> are not changed,
  and the relative error of a rounding in the normal range is at most \<open>1 / 2 ^ 53\<close>.
\<close>

definition round_even :: "real \<Rightarrow> int" where
  "round_even y =
     (let f = \<lfloor>y\<rfloor> in
      if y - of_int f < 1 / 2 then f
      else if 1 / 2 < y - of_int f then f + 1
      else if even f then f else f + 1)"

definition binary64_exponent :: "real \<Rightarrow> int" where
  "binary64_exponent x = max \<lfloor>log 2 \<bar>x\<bar>\<rfloor> (- 1022)"

definition binary64_round :: "real \<Rightarrow> real" where
  "binary64_round x =
     (let q = 2 powr of_int (binary64_exponent x - 52)
      in q * of_int (round_even (x / q)))"

definition rounded_ops :: "(real \<Rightarrow> real) \<Rightarrow> real double_ops" where
  "rounded_ops rnd =
     \<lparr>d_of_uint = (\<lambda>w. rnd (real (unat w))),
      d_sub = (\<lambda>x y. rnd (x - y)), d_mul = (\<lambda>x y. rnd (x * y)), d_div = (\<lambda>x y. rnd (x / y)),
      d_less = (<),
      d_sqrt = (\<lambda>x. rnd (sqrt x)),
      d_to_int = (\<lambda>x. word_of_int (if 0 \<le> x then \<lfloor>x\<rfloor> else \<lceil>x\<rceil>)),
      d_lit = rnd 3.141592653589893238462643383, d_two = rnd 2\<rparr>"

definition binary64_rounding :: "(real \<Rightarrow> real) \<Rightarrow> bool" where
  "binary64_rounding rnd \<longleftrightarrow>
     (\<forall>k :: int. \<bar>k\<bar> \<le> 2 ^ 53 \<longrightarrow> rnd (of_int k) = of_int k)
     \<and> (\<forall>x. 1 / 2 ^ 1022 \<le> \<bar>x\<bar> \<and> \<bar>x\<bar> \<le> 2 ^ 1023 \<longrightarrow> \<bar>rnd x - x\<bar> \<le> \<bar>x\<bar> / 2 ^ 53)"

text \<open>
  The noise in the words of the specification, \<open>d * (mu1 + mu2) / A * sqrt (pi / 2)\<close>
  with \<open>A = 100\<close>, evaluated from left to right in double arithmetic as the source
  evaluates its own expression.
\<close>

definition claimed_noise :: "(real \<Rightarrow> real) \<Rightarrow> uint \<Rightarrow> uint \<Rightarrow> real" where
  "claimed_noise rnd d mu =
     rnd (rnd (rnd (rnd (real (unat d)) * rnd (real (unat mu))) / rnd 100)
          * rnd (sqrt (rnd (rnd pi / rnd 2))))"

text \<open>The partial sums of the series of the arc tangent.\<close>

definition arctan_sum :: "real \<Rightarrow> nat \<Rightarrow> real" where
  "arctan_sum x m = (\<Sum>k<m. (- 1) ^ k * (1 / real (k * 2 + 1) * x ^ (k * 2 + 1)))"

subsection \<open>The stopping condition of the correlation scan\<close>

text \<open>
  The condition under which the scan of \<^verbatim>\<open>getEventParameter\<close> stops at the pair
  \<open>(i, i + 1)\<close> of boundaries, in the words of the specification: the next boundary
  exceeds the event number, or it is less than the current boundary.
\<close>

definition boundaryStops :: "ulong list \<Rightarrow> ulong \<Rightarrow> nat \<Rightarrow> bool" where
  "boundaryStops ms ev i = (ev < ms ! (i + 1) \<or> ms ! (i + 1) < ms ! i)"

subsection \<open>Valid hits and runs without scan parameter\<close>

text \<open>
  \<open>valid_hit\<close> is the validation of the specification: a 1-based column in
  \<open>[1, C]\<close>, a 1-based row in \<open>[1, R]\<close>, a ToT and a relative BCID in
  \<open>[0, 15]\<close>. \<open>flat_ready\<close> describes an object set up for a run without scan
  parameter: no parameter table, one parameter value, and every enabled histogram
  allocated with its size.
\<close>

definition valid_hit :: "nat \<Rightarrow> nat \<Rightarrow> HitInfo \<Rightarrow> bool" where
  "valid_hit C R hit =
     (1 \<le> unat (column hit) \<and> unat (column hit) \<le> C
      \<and> 1 \<le> unat (row hit) \<and> unat (row hit) \<le> R
      \<and> unat (tot hit) \<le> 15 \<and> unat (relativeBCID hit) \<le> 15)"

definition flat_ready :: "nat \<Rightarrow> nat \<Rightarrow> Histogram \<Rightarrow> bool" where
  "flat_ready C R h =
     (m_parInfo h = None \<and> m_parameterValues h = [] \<and> m_NparameterValues h = 1
      \<and> (m_createOccHist h \<longrightarrow> (\<exists>occ. m_occupancy h = Some occ \<and> length occ = C * R))
      \<and> (m_createRelBCIDhist h \<longrightarrow> (\<exists>b. m_relBcid h = Some b \<and> length b = 16))
      \<and> (m_createTotHist h \<longrightarrow> (\<exists>t. m_tot h = Some t \<and> length t = 16)))"

subsection \<open>Example runs\<close>

text \<open>
  Objects and inputs at which the theorems below are evaluated. \<open>flat_run\<close> is a run
  without scan parameter on a sensor of two columns and two rows; \<open>scan_run\<close> has two
  scan parameter values, 10 from event 0 and 20 from event 100; \<open>long_run\<close> has three
  boundaries; \<open>late_run\<close> has a single boundary that lies behind the first events;
  \<open>counting_run k\<close> is \<open>flat_run\<close> after \<open>k\<close> hits in its first pixel, and
  \<open>full_run\<close> is that run with the counter of the pixel at the largest
  \<^verbatim>\<open>unsigned int\<close>.
  \<open>exact_ops\<close> computes with real numbers without rounding. In \<open>scurve_run\<close> the
  pixel of the first column and row of \<open>scan_run\<close> has counted 50 hits at each of
  the two parameter values.
\<close>

definition hit_at :: "ushort \<Rightarrow> uint \<Rightarrow> ulong \<Rightarrow> HitInfo" where
  "hit_at c r ev = \<lparr>eventNumber = ev, relativeBCID = 0, column = c, row = r, tot = 0\<rparr>"

definition flat_run :: Histogram where
  "flat_run = (Histogram_new 0 0)\<lparr>m_occupancy := Some [0, 0, 0, 0], m_createOccHist := True\<rparr>"

definition scan_run :: Histogram where
  "scan_run = (Histogram_new 0 0)
     \<lparr>m_metaEventIndex := Some [0, 100], m_nMetaEventIndexLength := 2,
      m_parInfo := Some [\<lparr>scanParameter = 10\<rparr>, \<lparr>scanParameter = 20\<rparr>], m_nParInfoLength := 2,
      m_occupancy := Some [0, 0, 0, 0, 0, 0, 0, 0],
      m_NparameterValues := 2, m_minParameterValue := 10, m_maxParameterValue := 20,
      m_parameterValues := [10, 20], m_createOccHist := True\<rparr>"

definition long_run :: Histogram where
  "long_run = (Histogram_new 0 0)
     \<lparr>m_metaEventIndex := Some [0, 100, 200], m_nMetaEventIndexLength := 3,
      m_parInfo := Some [\<lparr>scanParameter = 10\<rparr>, \<lparr>scanParameter = 20\<rparr>, \<lparr>scanParameter = 30\<rparr>],
      m_nParInfoLength := 3\<rparr>"

definition late_run :: Histogram where
  "late_run = (Histogram_new 0 0)
     \<lparr>m_metaEventIndex := Some [5], m_nMetaEventIndexLength := 1,
      m_parInfo := Some [\<lparr>scanParameter = 10\<rparr>], m_nParInfoLength := 1\<rparr>"

definition full_run :: Histogram where
  "full_run =
     (Histogram_new 0 0)\<lparr>m_occupancy := Some [4294967295, 0, 0, 0], m_createOccHist := True\<rparr>"

definition counting_run :: "nat \<Rightarrow> Histogram" where
  "counting_run k =
     (Histogram_new 0 0)\<lparr>m_occupancy := Some [of_nat k, 0, 0, 0], m_createOccHist := True\<rparr>"

definition wide_entries :: "ParInfo list" where
  "wide_entries = [\<lparr>scanParameter = 1\<rparr>, \<lparr>scanParameter = 3000000000\<rparr>]"

definition exact_ops :: "real double_ops" where
  "exact_ops = rounded_ops (\<lambda>x. x)"

definition scurve_run :: Histogram where
  "scurve_run = scan_run\<lparr>m_occupancy := Some [50, 0, 0, 0, 50, 0, 0, 0]\<rparr>"

section \<open>Properties\<close>

lemmas run_defs = hit_at_def flat_run_def scan_run_def long_run_def late_run_def full_run_def
  Histogram_new_def

lemmas eval_defs = addHit_def getEventParameter_def scanMetaEventIndex.simps getParIndex_def
  getParIndex_from.simps getNparameters_def fillHistograms_def increment_def occupancyIndex_def
  Let_def

lemmas limit_defs = setParameterLimits_def std_set_int_def std_unique_def
  addScanParameter_def allocateOccupancyArray_def deleteOccupancyArray_def occupancySize_def
  resetOccupancyArray_def occupancyCells_def getNparameters_def occupancyIndex_def

lemma upt_0_2: "[0..<2] = [0, 1]"
  by code_simp

lemma upt_0_4: "[0..<4] = [0, 1, 2, 3]"
  by code_simp

lemma upt_0_8: "[0..<8] = [0, 1, 2, 3, 4, 5, 6, 7]"
  by code_simp

subsection \<open>The example runs are reachable\<close>

lemma flat_run_reachable:
  "setNoScanParameter 2 2 junk (createOccupancyHist True (Histogram_new 0 0)) = Inr flat_run"
  by (simp add: setNoScanParameter_def createOccupancyHist_def run_defs limit_defs Let_def
      upt_0_2 upt_0_4)

lemma scan_run_reachable:
  "addScanParameter 2 2 junk 2 (Some [\<lparr>scanParameter = 10\<rparr>, \<lparr>scanParameter = 20\<rparr>])
     (addMetaEventIndex 2 (Some [0, 100]) (createOccupancyHist True (Histogram_new 0 0)))
   = Inr scan_run"
  by (simp add: addMetaEventIndex_def createOccupancyHist_def run_defs limit_defs Let_def
      upt_0_2 upt_0_8)

lemma counting_run_step:
  "addHit 2 2 (counting_run k) (hit_at 1 1 0) = (None, counting_run (Suc k))"
  by (simp add: counting_run_def run_defs eval_defs)

lemma counting_run_batch:
  "addHits 2 2 (counting_run k) (replicate n (hit_at 1 1 0)) = (None, counting_run (k + n))"
  by (induction n arbitrary: k) (simp_all add: counting_run_step)

lemma full_run_reachable:
  "counting_run 0 = flat_run"
  "addHits 2 2 flat_run (replicate 4294967295 (hit_at 1 1 0)) = (None, full_run)"
proof -
  show z: "counting_run 0 = flat_run" by (simp add: counting_run_def flat_run_def)
  have "counting_run 4294967295 = full_run" by (simp add: counting_run_def full_run_def)
  with counting_run_batch [of 0 4294967295] z show
    "addHits 2 2 flat_run (replicate 4294967295 (hit_at 1 1 0)) = (None, full_run)"
    by simp
qed

subsection \<open>The ToT and relative BCID setters\<close>

lemma zero16_take:
  "length xs = 16 \<Longrightarrow> i \<le> 16 \<Longrightarrow> zero16 i xs = Inr (take i xs @ replicate (16 - i) 0)"
proof (induction i xs rule: zero16.induct)
  case (1 i xs)
  show ?case
  proof (cases "i < 16")
    case True
    with 1 have "zero16 (i + 1) (xs[i := 0]) = Inr (take (i + 1) (xs[i := 0]) @ replicate (16 - (i + 1)) 0)"
      by simp
    moreover have "take (i + 1) (xs[i := 0]) = take i xs @ [0]"
      using True 1(2) by (simp add: take_Suc_conv_app_nth)
    moreover have "replicate (16 - i) (0::ulong) = 0 # replicate (16 - (i + 1)) 0"
      using True by (metis Suc_diff_Suc Suc_eq_plus1 replicate_Suc)
    ultimately show ?thesis using True 1(2) by (subst zero16.simps) simp
  next
    case False
    with 1 show ?thesis by (subst zero16.simps) simp
  qed
qed

lemma zero16_junk: "zero16 0 (map junk [0..<16]) = Inr (replicate 16 0)"
  using zero16_take [of "map junk [0..<16]" 0] by simp

text \<open>
  C10. The setters of the ToT and of the relative BCID histogram, called with any
  flag, \<open>False\<close> included, store the flag, allocate a new array of 16 counters and
  set all of them to zero: whatever the arrays had counted before the call is gone.
\<close>

theorem create_hist_erases:
  "createTotHist junk b h = Inr (h\<lparr>m_createTotHist := b, m_tot := Some (replicate 16 0)\<rparr>)
   \<and> createRelBCIDHist junk b h
       = Inr (h\<lparr>m_createRelBCIDhist := b, m_relBcid := Some (replicate 16 0)\<rparr>)"
  by (simp add: createTotHist_def resetTotArray_def allocateTotArray_def deleteTotArray_def
      createRelBCIDHist_def resetRelBcidArray_def allocateRelBcidArray_def deleteRelBcidArray_def
      zero16_junk)

theorem create_hist_erases_witness:
  "createTotHist of_nat False (flat_run\<lparr>m_createTotHist := True, m_tot := Some (replicate 16 3)\<rparr>)
     = Inr (flat_run\<lparr>m_createTotHist := False, m_tot := Some (replicate 16 0)\<rparr>)
   \<and> createRelBCIDHist of_nat False
        (flat_run\<lparr>m_createRelBCIDhist := True, m_relBcid := Some (replicate 16 3)\<rparr>)
     = Inr (flat_run\<lparr>m_createRelBCIDhist := False, m_relBcid := Some (replicate 16 0)\<rparr>)"
  using create_hist_erases [of of_nat False "flat_run\<lparr>m_createTotHist := True, m_tot := Some (replicate 16 3)\<rparr>"]
    create_hist_erases [of of_nat False "flat_run\<lparr>m_createRelBCIDhist := True, m_relBcid := Some (replicate 16 3)\<rparr>"]
  by simp

subsection \<open>The parameter index\<close>

lemma getParIndex_from_found:
  "i \<le> k \<Longrightarrow> k < length vs \<Longrightarrow> vs ! k = v \<Longrightarrow> \<forall>j. i \<le> j \<and> j < k \<longrightarrow> vs ! j \<noteq> v
   \<Longrightarrow> getParIndex_from vs v i = k"
proof (induction vs v i rule: getParIndex_from.induct)
  case (1 vs v i)
  show ?case
  proof (cases "i = k")
    case True
    with 1 show ?thesis by (subst getParIndex_from.simps) simp
  next
    case False
    with 1 have "vs ! i \<noteq> v" "i < length vs" "i + 1 \<le> k" by auto
    with 1 show ?thesis by (subst getParIndex_from.simps) simp
  qed
qed

lemma getParIndex_from_absent:
  "\<forall>j. i \<le> j \<and> j < length vs \<longrightarrow> vs ! j \<noteq> v \<Longrightarrow> getParIndex_from vs v i = 0"
proof (induction vs v i rule: getParIndex_from.induct)
  case (1 vs v i)
  then show ?case by (subst getParIndex_from.simps) simp
qed

text \<open>
  C4. \<^verbatim>\<open>getParIndex\<close> searches the parameter values from the front: for a value
  that occurs it returns the position of its first occurrence, and for a value that
  does not occur it returns 0. The vector holds at most \<open>2 ^ 32\<close> values, so that a
  position fits the \<^verbatim>\<open>unsigned int\<close> returned.
\<close>

theorem getParIndex_first_match_or_zero:
  assumes "length (m_parameterValues h) \<le> 2 ^ 32"
  shows "(v \<in> set (m_parameterValues h)
           \<longrightarrow> unat (getParIndex h v) < length (m_parameterValues h)
               \<and> m_parameterValues h ! unat (getParIndex h v) = v
               \<and> (\<forall>j < unat (getParIndex h v). m_parameterValues h ! j \<noteq> v))
         \<and> (v \<notin> set (m_parameterValues h) \<longrightarrow> getParIndex h v = 0)"
proof (rule conjI; rule impI)
  let ?vs = "m_parameterValues h"
  assume "v \<in> set ?vs"
  then obtain k0 where k0: "k0 < length ?vs" "?vs ! k0 = v" by (auto simp: in_set_conv_nth)
  define k where "k = (LEAST k. k < length ?vs \<and> ?vs ! k = v)"
  have k: "k < length ?vs \<and> ?vs ! k = v"
    unfolding k_def using k0 by (intro LeastI [of "\<lambda>k. k < length ?vs \<and> ?vs ! k = v" k0]) simp
  have least: "\<forall>j. 0 \<le> j \<and> j < k \<longrightarrow> ?vs ! j \<noteq> v"
  proof (intro allI impI)
    fix j assume j: "0 \<le> j \<and> j < k"
    show "?vs ! j \<noteq> v"
    proof
      assume "?vs ! j = v"
      with j k have "j < length ?vs \<and> ?vs ! j = v" by simp
      then have "k \<le> j" unfolding k_def by (rule Least_le)
      with j show False by simp
    qed
  qed
  have "getParIndex_from ?vs v 0 = k"
    using k least by (intro getParIndex_from_found) auto
  moreover have "k < 2 ^ 32" using k assms by simp
  ultimately have "unat (getParIndex h v) = k"
    by (simp add: getParIndex_def of_nat_inverse)
  with k least
  show "unat (getParIndex h v) < length ?vs \<and> ?vs ! unat (getParIndex h v) = v
        \<and> (\<forall>j < unat (getParIndex h v). ?vs ! j \<noteq> v)" by simp
next
  assume "v \<notin> set (m_parameterValues h)"
  then have "getParIndex_from (m_parameterValues h) v 0 = 0"
    by (intro getParIndex_from_absent) auto
  then show "getParIndex h v = 0" by (simp add: getParIndex_def)
qed

theorem getParIndex_first_match_or_zero_witness:
  "length (m_parameterValues scan_run) \<le> 2 ^ 32
   \<and> 20 \<in> set (m_parameterValues scan_run) \<and> unat (getParIndex scan_run 20) = 1
   \<and> 15 \<notin> set (m_parameterValues scan_run) \<and> getParIndex scan_run 15 = 0"
proof -
  have l: "length (m_parameterValues scan_run) \<le> 2 ^ 32" by (simp add: run_defs)
  from getParIndex_first_match_or_zero [OF l, of 20] getParIndex_first_match_or_zero [OF l, of 15]
  show ?thesis by (simp add: run_defs eval_defs)
qed

subsection \<open>The correlation scan\<close>

lemma scan_Found:
  "scanMetaEventIndex ms ps bound ev i = Found k \<Longrightarrow> i \<le> k \<and> k < bound"
proof (induction ms ps bound ev i rule: scanMetaEventIndex.induct)
  case (1 ms ps bound ev i)
  from "1.prems" show ?case
    by (subst (asm) scanMetaEventIndex.simps) (auto split: if_splits dest!: "1.IH")
qed

lemma scan_stops:
  "i \<le> k \<Longrightarrow> k < bound \<Longrightarrow> bound < length ms \<Longrightarrow> bound \<le> length ps
   \<Longrightarrow> boundaryStops ms ev k \<Longrightarrow> \<forall>j. i \<le> j \<and> j < k \<longrightarrow> \<not> boundaryStops ms ev j
   \<Longrightarrow> scanMetaEventIndex ms ps bound ev i = Found k"
proof (induction ms ps bound ev i rule: scanMetaEventIndex.induct)
  case (1 ms ps bound ev i)
  show ?case
  proof (cases "i = k")
    case True
    with "1.prems" show ?thesis
      by (subst scanMetaEventIndex.simps) (auto simp: boundaryStops_def)
  next
    case False
    with "1.prems" have ns: "\<not> boundaryStops ms ev i" and lt: "i < bound" "i + 1 < length ms" "i + 1 \<le> k"
      by auto
    from ns have c: "\<not> (ev < ms ! (i + 1) \<or> ms ! (i + 1) < ms ! i)"
      by (simp add: boundaryStops_def)
    have "scanMetaEventIndex ms ps bound ev (i + 1) = Found k"
      using "1.IH" [OF lt(1) lt(2) c lt(3)] "1.prems" by auto
    with lt c show ?thesis
      by (subst scanMetaEventIndex.simps) simp
  qed
qed

lemma scan_exhausts:
  "bound < length ms \<Longrightarrow> \<forall>j. i \<le> j \<and> j < bound \<longrightarrow> \<not> boundaryStops ms ev j
   \<Longrightarrow> scanMetaEventIndex ms ps bound ev i = Exhausted"
proof (induction ms ps bound ev i rule: scanMetaEventIndex.induct)
  case (1 ms ps bound ev i)
  show ?case
  proof (cases "i < bound")
    case True
    with "1.prems" have c: "\<not> (ev < ms ! (i + 1) \<or> ms ! (i + 1) < ms ! i)"
      and lt: "i + 1 < length ms" by (auto simp: boundaryStops_def)
    have "scanMetaEventIndex ms ps bound ev (i + 1) = Exhausted"
      using "1.IH" [OF True lt c] "1.prems" by auto
    with True lt c show ?thesis by (subst scanMetaEventIndex.simps) simp
  next
    case False
    then show ?thesis by (subst scanMetaEventIndex.simps) simp
  qed
qed

lemma unat_length_minus_one:
  "0 < unat (n :: uint) \<Longrightarrow> unat (n - 1) = unat n - 1"
  using unat_minus_one [of n] by (cases "n = 0") auto

text \<open>
  C3. \<^verbatim>\<open>getEventParameter\<close> returns 0 when no parameter table is loaded. With a
  table of \<open>n > 0\<close> boundaries and as many parameter entries, it scans the pairs
  \<open>(i, i + 1)\<close> from the cursor \<open>c\<close> on: at the first \<open>i\<close> where the scan stops
  it sets the cursor to \<open>i\<close> and returns the value of entry \<open>i\<close>; when no pair
  stops it and the last boundary is at most the event number, it returns the value of
  the last entry; when no pair stops it and the last boundary exceeds the event number,
  it fails with \<open>CorrelationError\<close> for the event number and the last boundary, and
  returns no value.
\<close>

theorem getEventParameter_resolves:
  "(m_parInfo h = None \<longrightarrow> getEventParameter h ev = (Inr 0, h))
   \<and> (m_parInfo h = Some ps \<and> m_metaEventIndex h = Some ms
        \<and> n = unat (m_nMetaEventIndexLength h) \<and> 0 < n \<and> n \<le> length ms \<and> n \<le> length ps
        \<and> c = unat (m_lastMetaEventIndex h)
      \<longrightarrow> (\<forall>i. c \<le> i \<and> i < n - 1 \<and> boundaryStops ms ev i
                \<and> (\<forall>j. c \<le> j \<and> j < i \<longrightarrow> \<not> boundaryStops ms ev j)
              \<longrightarrow> getEventParameter h ev
                    = (Inr (scanParameter (ps ! i)), h\<lparr>m_lastMetaEventIndex := of_nat i\<rparr>))
          \<and> ((\<forall>j. c \<le> j \<and> j < n - 1 \<longrightarrow> \<not> boundaryStops ms ev j) \<and> ms ! (n - 1) \<le> ev
              \<longrightarrow> getEventParameter h ev = (Inr (scanParameter (ps ! (n - 1))), h))
          \<and> ((\<forall>j. c \<le> j \<and> j < n - 1 \<longrightarrow> \<not> boundaryStops ms ev j) \<and> ev < ms ! (n - 1)
              \<longrightarrow> getEventParameter h ev
                    = (Inl (CorrelationError ev (ms ! (n - 1)) (m_lastMetaEventIndex h)), h)))"
proof (intro conjI impI allI)
  assume "m_parInfo h = None"
  then show "getEventParameter h ev = (Inr 0, h)" by (simp add: getEventParameter_def)
next
  fix i
  assume wf: "m_parInfo h = Some ps \<and> m_metaEventIndex h = Some ms
        \<and> n = unat (m_nMetaEventIndexLength h) \<and> 0 < n \<and> n \<le> length ms \<and> n \<le> length ps
        \<and> c = unat (m_lastMetaEventIndex h)"
    and st: "c \<le> i \<and> i < n - 1 \<and> boundaryStops ms ev i
                \<and> (\<forall>j. c \<le> j \<and> j < i \<longrightarrow> \<not> boundaryStops ms ev j)"
  from wf have b: "unat (m_nMetaEventIndexLength h - 1) = n - 1"
    using unat_length_minus_one by simp
  have "scanMetaEventIndex ms ps (n - 1) ev c = Found i"
    using wf st by (intro scan_stops) auto
  with wf b show "getEventParameter h ev
                    = (Inr (scanParameter (ps ! i)), h\<lparr>m_lastMetaEventIndex := of_nat i\<rparr>)"
    by (simp add: getEventParameter_def)
next
  assume wf: "m_parInfo h = Some ps \<and> m_metaEventIndex h = Some ms
        \<and> n = unat (m_nMetaEventIndexLength h) \<and> 0 < n \<and> n \<le> length ms \<and> n \<le> length ps
        \<and> c = unat (m_lastMetaEventIndex h)"
    and ex: "(\<forall>j. c \<le> j \<and> j < n - 1 \<longrightarrow> \<not> boundaryStops ms ev j) \<and> ms ! (n - 1) \<le> ev"
  from wf have b: "unat (m_nMetaEventIndexLength h - 1) = n - 1"
    using unat_length_minus_one by simp
  have "scanMetaEventIndex ms ps (n - 1) ev c = Exhausted"
    using wf ex by (intro scan_exhausts) auto
  moreover from wf have "n - 1 < length ms" "n - 1 < length ps" by auto
  ultimately show "getEventParameter h ev = (Inr (scanParameter (ps ! (n - 1))), h)"
    using wf b ex by (simp add: getEventParameter_def Let_def)
next
  assume wf: "m_parInfo h = Some ps \<and> m_metaEventIndex h = Some ms
        \<and> n = unat (m_nMetaEventIndexLength h) \<and> 0 < n \<and> n \<le> length ms \<and> n \<le> length ps
        \<and> c = unat (m_lastMetaEventIndex h)"
    and ex: "(\<forall>j. c \<le> j \<and> j < n - 1 \<longrightarrow> \<not> boundaryStops ms ev j) \<and> ev < ms ! (n - 1)"
  from wf have b: "unat (m_nMetaEventIndexLength h - 1) = n - 1"
    using unat_length_minus_one by simp
  have "scanMetaEventIndex ms ps (n - 1) ev c = Exhausted"
    using wf ex by (intro scan_exhausts) auto
  moreover from wf have "n - 1 < length ms" "n - 1 < length ps" by auto
  ultimately show "getEventParameter h ev
                    = (Inl (CorrelationError ev (ms ! (n - 1)) (m_lastMetaEventIndex h)), h)"
    using wf b ex by (auto simp: getEventParameter_def Let_def)
qed

theorem getEventParameter_resolves_witness:
  "getEventParameter (Histogram_new 0 0) 7 = (Inr 0, Histogram_new 0 0)
   \<and> getEventParameter long_run 150 = (Inr 20, long_run\<lparr>m_lastMetaEventIndex := 1\<rparr>)
   \<and> getEventParameter long_run 250 = (Inr 30, long_run)
   \<and> getEventParameter late_run 3 = (Inl (CorrelationError 3 5 0), late_run)"
  using getEventParameter_resolves [of "Histogram_new 0 0" 7]
    getEventParameter_resolves [of long_run 150
      "[\<lparr>scanParameter = 10\<rparr>, \<lparr>scanParameter = 20\<rparr>, \<lparr>scanParameter = 30\<rparr>]" "[0, 100, 200]" 3 0]
    getEventParameter_resolves [of long_run 250
      "[\<lparr>scanParameter = 10\<rparr>, \<lparr>scanParameter = 20\<rparr>, \<lparr>scanParameter = 30\<rparr>]" "[0, 100, 200]" 3 0]
    getEventParameter_resolves [of late_run 3 "[\<lparr>scanParameter = 10\<rparr>]" "[5]" 1 0]
  by (simp add: run_defs eval_defs boundaryStops_def)

text \<open>
  C9. A call of \<^verbatim>\<open>getEventParameter\<close>, in any state and for any event number,
  leaves the cursor \<^verbatim>\<open>_lastMetaEventIndex\<close> at least where it was.
\<close>

theorem cursor_monotone:
  "m_lastMetaEventIndex h \<le> m_lastMetaEventIndex (snd (getEventParameter h ev))"
proof (cases "m_parInfo h")
  case None
  then show ?thesis by (simp add: getEventParameter_def)
next
  case (Some ps)
  show ?thesis
  proof (cases "m_metaEventIndex h")
    case None
    with Some show ?thesis by (simp add: getEventParameter_def)
  next
    case ms: (Some ms)
    let ?b = "unat (m_nMetaEventIndexLength h - 1)"
    let ?c = "unat (m_lastMetaEventIndex h)"
    show ?thesis
    proof (cases "scanMetaEventIndex ms ps ?b ev ?c")
      case (Found k)
      then have k: "?c \<le> k" "k < ?b" using scan_Found by blast+
      have "?b < 2 ^ 32" using unsigned_less [of "m_nMetaEventIndexLength h - 1"] by simp
      with k have "unat (of_nat k :: uint) = k" by (simp add: of_nat_inverse)
      with k have "m_lastMetaEventIndex h \<le> of_nat k" by (simp add: word_le_nat_alt)
      with Some ms Found show ?thesis by (simp add: getEventParameter_def)
    next
      case Exhausted
      with Some ms show ?thesis by (simp add: getEventParameter_def Let_def)
    next
      case Fault
      with Some ms show ?thesis by (simp add: getEventParameter_def)
    qed
  qed
qed

theorem cursor_monotone_witness:
  "m_lastMetaEventIndex long_run = 0
   \<and> m_lastMetaEventIndex (snd (getEventParameter long_run 150)) = 1
   \<and> m_lastMetaEventIndex long_run \<le> m_lastMetaEventIndex (snd (getEventParameter long_run 150))"
  using cursor_monotone [of long_run 150] by (simp add: run_defs eval_defs)

subsection \<open>Validation of hits\<close>

lemma addHits_append:
  "addHits C R h pre = (None, h') \<Longrightarrow> addHits C R h (pre @ xs) = addHits C R h' xs"
proof (induction pre arbitrary: h)
  case Nil
  then show ?case by simp
next
  case (Cons x pre)
  then show ?case by (auto split: prod.splits option.splits)
qed

lemma column_check:
  assumes "C < 65536"
  shows "(int C - 1 < uint (column hit - 1)) = (unat (column hit) < 1 \<or> C < unat (column hit))"
proof -
  have u: "uint (column hit - 1) = int (unat (column hit - 1))" by simp
  show ?thesis
  proof (cases "column hit = 0")
    case True
    have "unat (- 1 :: ushort) = 65535"
      by (simp add: unsigned_minus_1_eq_mask mask_eq_exp_minus_1)
    with True have "unat (column hit - 1) = 65535" "unat (column hit) = 0" by simp_all
    with u assms show ?thesis by linarith
  next
    case False
    then have "unat (column hit - 1) = unat (column hit) - 1" by (rule unat_minus_one)
    moreover from False have "0 < unat (column hit)" by (simp add: unat_gt_0)
    ultimately show ?thesis using u by linarith
  qed
qed

lemma row_check:
  assumes "0 < R" "R < 2 ^ 32"
  shows "((of_nat R - 1 :: uint) < row hit - 1) = (unat (row hit) < 1 \<or> R < unat (row hit))"
proof -
  have R: "unat (of_nat R :: uint) = R" using assms by (simp add: of_nat_inverse)
  then have "(of_nat R :: uint) \<noteq> 0" using assms by (metis less_numeral_extra(3) unat_0)
  then have R1: "unat (of_nat R - 1 :: uint) = R - 1" using R by (simp add: unat_minus_one)
  show ?thesis
  proof (cases "row hit = 0")
    case True
    have "unat (- 1 :: uint) = 2 ^ 32 - 1"
      by (simp add: unsigned_minus_1_eq_mask mask_eq_exp_minus_1)
    with True R1 assms show ?thesis by (simp add: word_less_nat_alt)
  next
    case False
    then have "unat (row hit - 1) = unat (row hit) - 1" by (rule unat_minus_one)
    moreover from False have "0 < unat (row hit)" by (simp add: unat_gt_0)
    ultimately show ?thesis using R1 assms by (auto simp: word_less_nat_alt)
  qed
qed

lemma nibble_check: "((15 :: uint) < w) = (15 < unat w)"
  by (simp add: word_less_nat_alt)

text \<open>
  C2. On a sensor of \<open>C < 65536\<close> columns and \<open>0 < R < 2 ^ 32\<close> rows, let the hits
  \<open>pre\<close> of a batch be ingested without error, and let \<open>hit\<close> follow them. The
  checks are made in the order column, row, ToT, relative BCID, and the first that
  fails decides: a column outside \<open>[1, C]\<close> (0 and \<open>C + 1\<close> among them) fails with
  \<open>InvalidColumn\<close>, a row outside \<open>[1, R]\<close> with \<open>InvalidRow\<close>, a ToT above 15 with
  \<open>InvalidTot\<close>, a relative BCID above 15 with \<open>InvalidBcid\<close>. The batch ends
  there, whatever follows in it, and the object is as the hits before left it: no
  counter has changed for the rejected hit.
\<close>

theorem addHits_rejects_invalid_hit:
  assumes "C < 65536" and "0 < R" and "R < 2 ^ 32"
    and "addHits C R h pre = (None, h')"
  shows "(unat (column hit) < 1 \<or> C < unat (column hit)
            \<longrightarrow> addHits C R h (pre @ hit # post) = (Some InvalidColumn, h'))
       \<and> (1 \<le> unat (column hit) \<and> unat (column hit) \<le> C
            \<and> (unat (row hit) < 1 \<or> R < unat (row hit))
            \<longrightarrow> addHits C R h (pre @ hit # post) = (Some InvalidRow, h'))
       \<and> (1 \<le> unat (column hit) \<and> unat (column hit) \<le> C
            \<and> 1 \<le> unat (row hit) \<and> unat (row hit) \<le> R
            \<and> 15 < unat (tot hit)
            \<longrightarrow> addHits C R h (pre @ hit # post) = (Some InvalidTot, h'))
       \<and> (1 \<le> unat (column hit) \<and> unat (column hit) \<le> C
            \<and> 1 \<le> unat (row hit) \<and> unat (row hit) \<le> R
            \<and> unat (tot hit) \<le> 15 \<and> 15 < unat (relativeBCID hit)
            \<longrightarrow> addHits C R h (pre @ hit # post) = (Some InvalidBcid, h'))"
proof -
  have step: "addHits C R h (pre @ hit # post)
      = (case addHit C R h' hit of (Some e, h'') \<Rightarrow> (Some e, h'')
          | (None, h'') \<Rightarrow> addHits C R h'' post)"
    using addHits_append [OF assms(4)] by simp
  note checks = column_check [OF assms(1)] row_check [OF assms(2) assms(3)] nibble_check
  have "unat (column hit) < 1 \<or> C < unat (column hit)
        \<Longrightarrow> addHit C R h' hit = (Some InvalidColumn, h')"
    by (simp add: addHit_def checks)
  moreover have "1 \<le> unat (column hit) \<and> unat (column hit) \<le> C
            \<and> (unat (row hit) < 1 \<or> R < unat (row hit))
        \<Longrightarrow> addHit C R h' hit = (Some InvalidRow, h')"
    by (auto simp: addHit_def checks Let_def)
  moreover have "1 \<le> unat (column hit) \<and> unat (column hit) \<le> C
            \<and> 1 \<le> unat (row hit) \<and> unat (row hit) \<le> R
            \<and> 15 < unat (tot hit)
        \<Longrightarrow> addHit C R h' hit = (Some InvalidTot, h')"
    by (auto simp: addHit_def checks Let_def)
  moreover have "1 \<le> unat (column hit) \<and> unat (column hit) \<le> C
            \<and> 1 \<le> unat (row hit) \<and> unat (row hit) \<le> R
            \<and> unat (tot hit) \<le> 15 \<and> 15 < unat (relativeBCID hit)
        \<Longrightarrow> addHit C R h' hit = (Some InvalidBcid, h')"
    by (auto simp: addHit_def checks Let_def)
  ultimately show ?thesis by (simp add: step)
qed

theorem addHits_rejects_invalid_hit_witness:
  "(2 :: nat) < 65536 \<and> (0 :: nat) < 2 \<and> (2 :: nat) < 2 ^ 32
   \<and> addHits 2 2 scan_run [hit_at 1 1 50] = (None, scan_run\<lparr>m_occupancy := Some [1, 0, 0, 0, 0, 0, 0, 0]\<rparr>)
   \<and> addHits 2 2 scan_run ([hit_at 1 1 50] @ hit_at 0 1 60 # [hit_at 1 1 70])
       = (Some InvalidColumn, scan_run\<lparr>m_occupancy := Some [1, 0, 0, 0, 0, 0, 0, 0]\<rparr>)
   \<and> addHits 2 2 scan_run ([hit_at 1 1 50] @ hit_at 3 1 60 # [hit_at 1 1 70])
       = (Some InvalidColumn, scan_run\<lparr>m_occupancy := Some [1, 0, 0, 0, 0, 0, 0, 0]\<rparr>)
   \<and> addHits 2 2 scan_run ([hit_at 1 1 50] @ hit_at 2 3 60 # [hit_at 1 1 70])
       = (Some InvalidRow, scan_run\<lparr>m_occupancy := Some [1, 0, 0, 0, 0, 0, 0, 0]\<rparr>)
   \<and> addHits 2 2 scan_run ([hit_at 1 1 50] @ (hit_at 2 2 60)\<lparr>tot := 16\<rparr> # [hit_at 1 1 70])
       = (Some InvalidTot, scan_run\<lparr>m_occupancy := Some [1, 0, 0, 0, 0, 0, 0, 0]\<rparr>)
   \<and> addHits 2 2 scan_run ([hit_at 1 1 50] @ (hit_at 2 2 60)\<lparr>relativeBCID := 16\<rparr> # [hit_at 1 1 70])
       = (Some InvalidBcid, scan_run\<lparr>m_occupancy := Some [1, 0, 0, 0, 0, 0, 0, 0]\<rparr>)"
proof -
  have g: "(2 :: nat) < 65536" "(0 :: nat) < 2" "(2 :: nat) < 2 ^ 32" by simp_all
  have pre: "addHits 2 2 scan_run [hit_at 1 1 50]
      = (None, scan_run\<lparr>m_occupancy := Some [1, 0, 0, 0, 0, 0, 0, 0]\<rparr>)"
    by (simp add: run_defs eval_defs)
  note t = addHits_rejects_invalid_hit [OF g pre]
  from t [of "hit_at 0 1 60" "[hit_at 1 1 70]"] t [of "hit_at 3 1 60" "[hit_at 1 1 70]"]
    t [of "hit_at 2 3 60" "[hit_at 1 1 70]"]
    t [of "(hit_at 2 2 60)\<lparr>tot := 16\<rparr>" "[hit_at 1 1 70]"]
    t [of "(hit_at 2 2 60)\<lparr>relativeBCID := 16\<rparr>" "[hit_at 1 1 70]"] pre
  show ?thesis by (simp add: hit_at_def)
qed

subsection \<open>Valid hits are ingested\<close>

text \<open>
  In a run without scan parameter every batch of valid hits is ingested without error,
  whatever the event numbers.
\<close>

lemma pixel_offset_bound:
  assumes "i < C" and "j < R"
  shows "i + j * C < C * (R :: nat)"
proof -
  have "i + j * C < C + j * C" using assms(1) by simp
  also have "\<dots> = (Suc j) * C" by simp
  also have "\<dots> \<le> R * C" using assms(2) by (intro mult_le_mono1) simp
  finally show ?thesis by (simp add: mult.commute)
qed

lemma addHit_flat:
  assumes g: "C < 65536" "0 < R" "R < 2 ^ 32"
    and f: "flat_ready C R h" and v: "valid_hit C R hit"
  shows "\<exists>h'. addHit C R h hit = (None, h') \<and> flat_ready C R h'"
proof -
  from v have c: "\<not> (int C - 1 < uint (column hit - 1))"
    by (simp add: column_check [OF g(1)] valid_hit_def)
  from v have r: "\<not> ((of_nat R - 1 :: uint) < row hit - 1)"
    by (simp add: row_check [OF g(2,3)] valid_hit_def)
  from v have t: "\<not> (15 < tot hit)" and b: "\<not> (15 < relativeBCID hit)"
    by (simp_all add: nibble_check valid_hit_def)
  from f have e: "getEventParameter h (eventNumber hit) = (Inr 0, h)"
    by (simp add: flat_ready_def getEventParameter_def)
  from f have p: "getParIndex h 0 = 0"
    by (simp add: flat_ready_def getParIndex_def getParIndex_from.simps)
  from f have n: "\<not> (getNparameters h - 1 < 0)"
    by (simp add: flat_ready_def getNparameters_def)
  have step: "addHit C R h hit
      = fillHistograms C R h (column hit - 1) (row hit - 1) 0 (relativeBCID hit) (tot hit)"
    using c r t b e p n by (simp add: addHit_def Let_def)
  from v have "column hit \<noteq> 0" "row hit \<noteq> 0" by (auto simp: valid_hit_def)
  then have "unat (column hit - 1) = unat (column hit) - 1" "unat (row hit - 1) = unat (row hit) - 1"
    by (simp_all add: unat_minus_one)
  with v have "unat (column hit - 1) < C" "unat (row hit - 1) < R"
    by (auto simp: valid_hit_def)
  then have idx: "occupancyIndex C R (unat (column hit - 1)) (unat (row hit - 1)) (unat (0 :: uint)) < C * R"
    using pixel_offset_bound by (simp add: occupancyIndex_def)
  from v have tb: "unat (tot hit) < 16" "unat (relativeBCID hit) < 16"
    by (auto simp: valid_hit_def)
  show ?thesis
    unfolding step using f idx tb
    by (auto simp: flat_ready_def fillHistograms_def increment_def Let_def)
qed

lemma addHits_flat:
  assumes "C < 65536" "0 < R" "R < 2 ^ 32"
  shows "flat_ready C R h \<Longrightarrow> \<forall>hit \<in> set hits. valid_hit C R hit
         \<Longrightarrow> \<exists>h'. addHits C R h hits = (None, h') \<and> flat_ready C R h'"
proof (induction hits arbitrary: h)
  case Nil
  then show ?case by simp
next
  case (Cons hit hits)
  from addHit_flat [OF assms Cons.prems(1)] Cons.prems(2)
  obtain h1 where h1: "addHit C R h hit = (None, h1)" "flat_ready C R h1" by auto
  from Cons.IH [OF h1(2)] Cons.prems(2)
  obtain h' where "addHits C R h1 hits = (None, h')" "flat_ready C R h'" by auto
  with h1 show ?case by simp
qed

subsection \<open>The occupancy array is zeroed when it is allocated\<close>

text \<open>
  The offsets that \<^verbatim>\<open>resetOccupancyArray\<close> writes are exactly those of the block
  that \<^verbatim>\<open>allocateOccupancyArray\<close> has allocated, so that
  \<^verbatim>\<open>setNoScanParameter\<close> and \<^verbatim>\<open>addScanParameter\<close> leave an array of
  \<open>C * R * n\<close> zeros, \<open>n\<close> the number of parameter values.
\<close>

lemma occupancySize_eq: "occupancySize C R n = int (C * R * unat n)"
proof -
  have "uint n = int (unat n)" by simp
  then show ?thesis by (simp add: occupancySize_def algebra_simps)
qed

lemma occupancyCells_iff:
  "m \<in> set (occupancyCells C R n)
   \<longleftrightarrow> (\<exists>i < C. \<exists>j < R. \<exists>k < unat n. m = occupancyIndex C R i j k)"
  by (force simp: occupancyCells_def image_iff)

lemma occupancyIndex_bound:
  assumes "i < C" and "j < R" and "k < n"
  shows "occupancyIndex C R i j k < C * R * n"
proof -
  have "i + j * C < C * R" using assms(1,2) by (rule pixel_offset_bound)
  then have "i + j * C + k * C * R < C * R + k * (C * R)" by (simp add: mult.assoc)
  also have "\<dots> = Suc k * (C * R)" by simp
  also have "\<dots> \<le> n * (C * R)" using assms(3) by (intro mult_le_mono1) simp
  finally show ?thesis by (simp add: occupancyIndex_def mult.commute)
qed

lemma occupancyIndex_cover:
  assumes "m < C * R * n"
  shows "\<exists>i < C. \<exists>j < R. \<exists>k < n. m = occupancyIndex C R i j k"
proof -
  from assms have pos: "0 < C" "0 < R" by (auto intro: gr0I)
  let ?k = "m div (C * R)" and ?r = "m mod (C * R)"
  have k: "?k < n" using assms pos by (simp add: less_mult_imp_div_less mult.commute)
  have r: "?r < C * R" using pos by simp
  then have j: "?r div C < R" using pos by (simp add: less_mult_imp_div_less mult.commute)
  have i: "?r mod C < C" using pos by simp
  have "?r mod C + (?r div C) * C = ?r" by (rule mod_div_mult_eq)
  moreover have "?r + ?k * (C * R) = m" by (rule mod_div_mult_eq)
  ultimately have "m = ?r mod C + (?r div C) * C + ?k * C * R"
    by (simp only: mult.assoc)
  with i j k show ?thesis unfolding occupancyIndex_def by blast
qed

lemma occupancyCells_set: "set (occupancyCells C R n) = {..< C * R * unat n}"
  using occupancyIndex_bound occupancyIndex_cover
  by (auto simp: occupancyCells_iff)

lemma zero_fold_length: "length (foldl (\<lambda>a c. a[c := 0]) xs cells) = length xs"
  by (induction cells arbitrary: xs) simp_all

lemma zero_fold_nth:
  "m < length xs \<Longrightarrow> foldl (\<lambda>a c. a[c := 0]) xs cells ! m
     = (if m \<in> set cells then 0 else xs ! m)"
proof (induction cells arbitrary: xs)
  case Nil
  then show ?case by simp
next
  case (Cons c cells)
  then show ?case by (auto simp: nth_list_update)
qed

lemma zero_fold_all:
  fixes xs :: "uint list"
  assumes "set cells = {..< length xs}"
  shows "foldl (\<lambda>a c. a[c := 0]) xs cells = replicate (length xs) 0"
  using assms by (intro nth_equalityI) (simp_all add: zero_fold_length zero_fold_nth)

lemma reset_after_allocate:
  "resetOccupancyArray C R (allocateOccupancyArray C R junk h)
     = Inr (h\<lparr>m_occupancy := Some (replicate (C * R * unat (m_NparameterValues h)) 0)\<rparr>)"
proof -
  let ?n = "m_NparameterValues h"
  let ?xs = "map junk [0..<C * R * unat ?n]"
  have a: "allocateOccupancyArray C R junk h = h\<lparr>m_occupancy := Some ?xs\<rparr>"
    by (simp add: allocateOccupancyArray_def deleteOccupancyArray_def getNparameters_def
        occupancySize_eq del: of_nat_mult)
  have s: "set (occupancyCells C R ?n) = {..< length ?xs}" by (simp add: occupancyCells_set)
  then have all: "list_all (\<lambda>c. c < length ?xs) (occupancyCells C R ?n)"
    by (simp add: list_all_iff)
  have z: "foldl (\<lambda>a c. a[c := 0]) ?xs (occupancyCells C R ?n) = replicate (length ?xs) 0"
    using s by (rule zero_fold_all)
  show ?thesis
  proof (cases "occupancyCells C R ?n = []")
    case True
    with s have "C * R * unat ?n = 0" by (simp add: lessThan_empty_iff [symmetric] del: lessThan_empty_iff)
    with True a show ?thesis by (simp add: resetOccupancyArray_def getNparameters_def)
  next
    case False
    with a all z show ?thesis
      by (simp add: resetOccupancyArray_def getNparameters_def Let_def)
  qed
qed

lemma setNoScanParameter_zeroed:
  "setNoScanParameter C R junk h
     = Inr (h\<lparr>m_occupancy := Some (replicate (C * R) 0), m_NparameterValues := 1\<rparr>)"
  using reset_after_allocate [of C R junk "(deleteOccupancyArray h)\<lparr>m_NparameterValues := 1\<rparr>"]
  by (simp add: setNoScanParameter_def deleteOccupancyArray_def)

lemma setNoScanParameter_flat_ready:
  "\<exists>h'. setNoScanParameter C R junk (createOccupancyHist b (Histogram_new x y)) = Inr h'
        \<and> flat_ready C R h' \<and> m_createOccHist h' = b"
  by (simp add: setNoScanParameter_zeroed createOccupancyHist_def Histogram_new_def flat_ready_def)

lemma addScanParameter_zeroed:
  "addScanParameter C R junk rNparInfoLength rParInfo h
     = (case setParameterLimits (h\<lparr>m_nParInfoLength := rNparInfoLength, m_parInfo := rParInfo\<rparr>) of
          Inl e \<Rightarrow> Inl e
        | Inr h1 \<Rightarrow>
            Inr (h1\<lparr>m_occupancy := Some (replicate (C * R * unat (m_NparameterValues h1)) 0)\<rparr>))"
  by (simp add: addScanParameter_def reset_after_allocate split: sum.splits)

subsection \<open>The sum of the occupancy array\<close>

lemma getEventParameter_cases:
  "snd (getEventParameter h ev) = h \<or> (\<exists>i. snd (getEventParameter h ev) = h\<lparr>m_lastMetaEventIndex := i\<rparr>)"
proof (cases "m_parInfo h")
  case None
  then show ?thesis by (simp add: getEventParameter_def)
next
  case (Some ps)
  show ?thesis
  proof (cases "m_metaEventIndex h")
    case None
    with Some show ?thesis by (simp add: getEventParameter_def)
  next
    case ms: (Some ms)
    show ?thesis
    proof (cases "scanMetaEventIndex ms ps (unat (m_nMetaEventIndexLength h - 1)) ev (unat (m_lastMetaEventIndex h))")
      case (Found k)
      with Some ms have "snd (getEventParameter h ev) = h\<lparr>m_lastMetaEventIndex := of_nat k\<rparr>"
        by (simp add: getEventParameter_def)
      then show ?thesis by blast
    next
      case Exhausted
      with Some ms show ?thesis by (simp add: getEventParameter_def Let_def)
    next
      case Fault
      with Some ms show ?thesis by (simp add: getEventParameter_def)
    qed
  qed
qed

lemma getEventParameter_occupancy:
  assumes "getEventParameter h ev = (r, h1)"
  shows "m_occupancy h1 = m_occupancy h" and "m_createOccHist h1 = m_createOccHist h"
proof -
  from assms have "h1 = snd (getEventParameter h ev)" by simp
  with getEventParameter_cases [of h ev]
  have "h1 = h \<or> (\<exists>i. h1 = h\<lparr>m_lastMetaEventIndex := i\<rparr>)" by simp
  then show "m_occupancy h1 = m_occupancy h" and "m_createOccHist h1 = m_createOccHist h"
    by auto
qed


lemma increment_Some:
  "increment (Some xs) i = Inr a \<Longrightarrow> i < length xs \<and> a = Some (xs[i := xs ! i + 1])"
  by (auto simp: increment_def split: if_splits)

lemma fillHistograms_occupancy:
  assumes "fillHistograms C R h c r p b t = (None, h')"
    and "m_createOccHist h" and "m_occupancy h = Some occ"
  shows "\<exists>i < length occ. m_occupancy h' = Some (occ[i := occ ! i + 1]) \<and> m_createOccHist h'"
proof -
  let ?i = "occupancyIndex C R (unat c) (unat r) (unat p)"
  from assms obtain a where a: "increment (Some occ) ?i = Inr a"
    by (auto simp: fillHistograms_def split: sum.splits)
  then have i: "?i < length occ" "a = Some (occ[?i := occ ! ?i + 1])"
    using increment_Some by blast+
  from assms a have "m_occupancy h' = a \<and> m_createOccHist h'"
    by (auto simp: fillHistograms_def Let_def split: sum.splits if_splits)
  with i show ?thesis by blast
qed

lemma addHit_occupancy:
  assumes "addHit C R h hit = (None, h')"
    and "m_createOccHist h" and "m_occupancy h = Some occ"
  shows "\<exists>i < length occ. m_occupancy h' = Some (occ[i := occ ! i + 1]) \<and> m_createOccHist h'"
proof -
  obtain r h1 where g: "getEventParameter h (eventNumber hit) = (r, h1)" by fastforce
  then have h1: "m_createOccHist h1" "m_occupancy h1 = Some occ"
    using getEventParameter_occupancy assms by simp_all
  from assms(1) g obtain p where
    "fillHistograms C R h1 (column hit - 1) (row hit - 1) p (relativeBCID hit) (tot hit) = (None, h')"
    by (auto simp: addHit_def Let_def split: if_splits sum.splits)
  then show ?thesis using h1 by (rule fillHistograms_occupancy)
qed

lemma sum_list_increment:
  fixes occ :: "uint list"
  assumes "i < length occ" and "unat (occ ! i) + 1 < 2 ^ 32"
  shows "sum_list (map unat (occ[i := occ ! i + 1])) = sum_list (map unat occ) + 1"
proof -
  have "unat (occ ! i + 1) = unat (occ ! i) + 1"
    using assms(2) by (simp add: unat_add_lem [THEN iffD1])
  moreover have "map unat (occ[i := occ ! i + 1]) = (map unat occ)[i := unat (occ ! i + 1)]"
    by (simp add: map_update)
  moreover have "sum_list ((map unat occ)[i := unat (occ ! i) + 1]) = sum_list (map unat occ) + 1"
    using assms(1) by (simp add: sum_list_update)
  ultimately show ?thesis by simp
qed

lemma cells_after_increment:
  fixes occ :: "uint list"
  assumes "i < length occ" and "\<forall>c \<in> set occ. unat c + Suc n < 2 ^ 32"
  shows "\<forall>c \<in> set (occ[i := occ ! i + 1]). unat c + n < 2 ^ 32"
proof
  fix c assume "c \<in> set (occ[i := occ ! i + 1])"
  then have "c = occ ! i + 1 \<or> c \<in> set occ"
    using set_update_subset_insert [of occ i "occ ! i + 1"] by auto
  moreover have "unat (occ ! i) + Suc n < 2 ^ 32" using assms by simp
  then have "unat (occ ! i + 1) = unat (occ ! i) + 1"
    by (simp add: unat_add_lem [THEN iffD1])
  ultimately show "unat c + n < 2 ^ 32" using assms \<open>unat (occ ! i) + Suc n < 2 ^ 32\<close>
    by fastforce
qed

lemma unat_succ_cases:
  fixes x :: uint
  shows "(unat x + 1 < 2 ^ 32 \<and> unat (x + 1) = unat x + 1)
         \<or> (unat x = 2 ^ 32 - 1 \<and> unat (x + 1) = 0)"
proof (cases "unat x + 1 < 2 ^ 32")
  case True
  then show ?thesis by (simp add: unat_add_lem [THEN iffD1])
next
  case False
  moreover have "unat x < 2 ^ 32" using unsigned_less [of x] by simp
  ultimately have m: "unat x = 2 ^ 32 - 1" by simp
  then have "unat (x + 1) = 0" by (simp add: unat_word_ariths)
  with m show ?thesis by simp
qed

lemma sum_list_increment_mod:
  fixes occ :: "uint list"
  assumes "i < length occ"
  shows "sum_list (map unat (occ[i := occ ! i + 1])) mod 2 ^ 32
         = (sum_list (map unat occ) + 1) mod 2 ^ 32"
proof -
  let ?s = "sum_list (map unat occ)"
  have upd: "sum_list (map unat (occ[i := occ ! i + 1]))
        = ?s + unat (occ ! i + 1) - unat (occ ! i)"
    using assms by (simp add: map_update sum_list_update)
  have mem: "unat (occ ! i) \<le> ?s"
    using assms by (intro member_le_sum_list) auto
  from unat_succ_cases [of "occ ! i"] show ?thesis
  proof
    assume "unat (occ ! i) + 1 < 2 ^ 32 \<and> unat (occ ! i + 1) = unat (occ ! i) + 1"
    with upd show ?thesis by simp
  next
    assume w: "unat (occ ! i) = 2 ^ 32 - 1 \<and> unat (occ ! i + 1) = 0"
    with upd mem have "?s + 1 = sum_list (map unat (occ[i := occ ! i + 1])) + 2 ^ 32" by simp
    then show ?thesis by (metis mod_add_self2)
  qed
qed

lemma addHits_sum_mod:
  assumes "addHits C R h hits = (None, h')"
    and "m_createOccHist h" and "m_occupancy h = Some occ"
  shows "\<exists>occ'. m_occupancy h' = Some occ' \<and> length occ' = length occ
           \<and> sum_list (map unat occ') mod 2 ^ 32
               = (sum_list (map unat occ) + length hits) mod 2 ^ 32"
  using assms
proof (induction hits arbitrary: h occ)
  case Nil
  then show ?case by simp
next
  case (Cons hit hits)
  from Cons.prems(1) obtain h1 where s: "addHit C R h hit = (None, h1)"
    and r: "addHits C R h1 hits = (None, h')"
    by (auto split: prod.splits option.splits)
  from addHit_occupancy [OF s Cons.prems(2,3)] obtain i where i: "i < length occ"
    and o1: "m_occupancy h1 = Some (occ[i := occ ! i + 1])" and e1: "m_createOccHist h1"
    by blast
  let ?occ1 = "occ[i := occ ! i + 1]"
  from Cons.IH [OF r e1 o1] obtain occ' where occ': "m_occupancy h' = Some occ'"
    "length occ' = length ?occ1"
    "sum_list (map unat occ') mod 2 ^ 32 = (sum_list (map unat ?occ1) + length hits) mod 2 ^ 32"
    by blast
  have "(sum_list (map unat ?occ1) + length hits) mod 2 ^ 32
        = (sum_list (map unat occ) + 1 + length hits) mod 2 ^ 32"
    using sum_list_increment_mod [OF i] by (metis mod_add_left_eq)
  with occ' show ?case by (simp add: add.assoc)
qed

lemma addHits_sum_exact:
  assumes "addHits C R h hits = (None, h')"
    and "m_createOccHist h" and "m_occupancy h = Some occ"
    and "\<forall>c \<in> set occ. unat c + length hits < 2 ^ 32"
  shows "\<exists>occ'. m_occupancy h' = Some occ' \<and> length occ' = length occ
           \<and> sum_list (map unat occ') = sum_list (map unat occ) + length hits"
  using assms
proof (induction hits arbitrary: h occ)
  case Nil
  then show ?case by simp
next
  case (Cons hit hits)
  from Cons.prems(1) obtain h1 where s: "addHit C R h hit = (None, h1)"
    and r: "addHits C R h1 hits = (None, h')"
    by (auto split: prod.splits option.splits)
  from addHit_occupancy [OF s Cons.prems(2,3)] obtain i where i: "i < length occ"
    and o1: "m_occupancy h1 = Some (occ[i := occ ! i + 1])" and e1: "m_createOccHist h1"
    by blast
  let ?occ1 = "occ[i := occ ! i + 1]"
  from Cons.prems(4) have b: "\<forall>c \<in> set occ. unat c + Suc (length hits) < 2 ^ 32" by simp
  have b1: "\<forall>c \<in> set ?occ1. unat c + length hits < 2 ^ 32"
    using cells_after_increment [OF i b] .
  from Cons.IH [OF r e1 o1 b1] obtain occ' where occ': "m_occupancy h' = Some occ'"
    "length occ' = length ?occ1"
    "sum_list (map unat occ') = sum_list (map unat ?occ1) + length hits" by blast
  from i b have "unat (occ ! i) + Suc (length hits) < 2 ^ 32" by simp
  then have "unat (occ ! i) + 1 < 2 ^ 32" by simp
  then have "sum_list (map unat ?occ1) = sum_list (map unat occ) + 1"
    using sum_list_increment [OF i] by simp
  with occ' show ?case by simp
qed

text \<open>
  C1, as the code has it. Let a batch be ingested without error with occupancy
  histogramming enabled. The counters are \<^verbatim>\<open>unsigned int\<close> and wrap, so the sum
  of the occupancy array after the batch is its sum before plus the number of hits
  modulo \<open>2 ^ 32\<close>. The two are equal when every counter is so far below
  \<open>2 ^ 32\<close> that the hits of the batch cannot make it wrap; a zeroed array is, for
  every batch of fewer than \<open>2 ^ 32\<close> hits, and then the sum is the number of hits
  ingested.
\<close>

theorem addHits_occupancy_sum:
  assumes "addHits C R h hits = (None, h')"
    and "m_createOccHist h" and "m_occupancy h = Some occ"
  shows "\<exists>occ'. m_occupancy h' = Some occ' \<and> length occ' = length occ
           \<and> sum_list (map unat occ') mod 2 ^ 32
               = (sum_list (map unat occ) + length hits) mod 2 ^ 32
           \<and> ((\<forall>c \<in> set occ. unat c + length hits < 2 ^ 32)
                \<longrightarrow> sum_list (map unat occ') = sum_list (map unat occ) + length hits)
           \<and> ((\<forall>c \<in> set occ. c = 0) \<and> length hits < 2 ^ 32
                \<longrightarrow> sum_list (map unat occ') = length hits)"
proof -
  from addHits_sum_mod [OF assms] obtain occ' where occ': "m_occupancy h' = Some occ'"
    "length occ' = length occ"
    "sum_list (map unat occ') mod 2 ^ 32 = (sum_list (map unat occ) + length hits) mod 2 ^ 32"
    by blast
  have exact: "sum_list (map unat occ') = sum_list (map unat occ) + length hits"
    if "\<forall>c \<in> set occ. unat c + length hits < 2 ^ 32"
    using addHits_sum_exact [OF assms that] occ'(1) by simp
  have zero: "sum_list (map unat occ') = length hits"
    if z: "(\<forall>c \<in> set occ. c = 0) \<and> length hits < 2 ^ 32"
  proof -
    from z have "\<forall>c \<in> set occ. unat c + length hits < 2 ^ 32" by auto
    moreover from z have "sum_list (map unat occ) = 0" by (auto simp: sum_list_eq_0_iff)
    ultimately show ?thesis using exact by simp
  qed
  from occ' exact zero show ?thesis by blast
qed

theorem addHits_occupancy_sum_witness:
  "addHits 2 2 scan_run [hit_at 1 1 50, hit_at 1 1 150]
     = (None, scan_run\<lparr>m_occupancy := Some [1, 0, 0, 0, 1, 0, 0, 0]\<rparr>)
   \<and> m_createOccHist scan_run
   \<and> m_occupancy scan_run = Some [0, 0, 0, 0, 0, 0, 0, 0]
   \<and> length [hit_at 1 1 50, hit_at 1 1 150] < (2 :: nat) ^ 32
   \<and> (\<exists>occ'. m_occupancy (scan_run\<lparr>m_occupancy := Some [1, 0, 0, 0, 1, 0, 0, 0]\<rparr>) = Some occ'
          \<and> length occ' = 8 \<and> sum_list (map unat occ') = 2)"
proof -
  have run: "addHits 2 2 scan_run [hit_at 1 1 50, hit_at 1 1 150]
     = (None, scan_run\<lparr>m_occupancy := Some [1, 0, 0, 0, 1, 0, 0, 0]\<rparr>)"
    by (simp add: run_defs eval_defs)
  have en: "m_createOccHist scan_run" by (simp add: run_defs)
  have occ: "m_occupancy scan_run = Some [0, 0, 0, 0, 0, 0, 0, 0]" by (simp add: run_defs)
  from addHits_occupancy_sum [OF run en occ] run en occ show ?thesis by simp
qed

text \<open>
  C1, as it is stated, fails where a counter wraps: on a sensor of two columns and two
  rows whose first pixel has counted \<open>2 ^ 32 - 1\<close> hits, one more valid hit in that
  pixel is ingested without error and leaves the counter, and with it the sum, at 0.
\<close>

theorem addHits_occupancy_sum_counterexample:
  "addHits 2 2 full_run [hit_at 1 1 0] = (None, full_run\<lparr>m_occupancy := Some [0, 0, 0, 0]\<rparr>)
   \<and> m_createOccHist full_run
   \<and> m_occupancy full_run = Some [4294967295, 0, 0, 0]
   \<and> sum_list (map unat [0, 0, 0, 0 :: uint])
       \<noteq> sum_list (map unat [4294967295, 0, 0, 0 :: uint]) + length [hit_at 1 1 0]"
  by (simp add: run_defs eval_defs)

subsection \<open>Scan parameter limits\<close>

text \<open>
  What \<^verbatim>\<open>setParameterLimits\<close> derives from a non-empty sequence of entries.
  The minimum, the maximum and the count are taken from the vector sorted as
  \<^verbatim>\<open>unsigned int\<close> and are those of the values, whatever the values. The
  parameter values are the distinct values in the order of \<^verbatim>\<open>int\<close>; this is
  the ascending order when no value exceeds the largest \<^verbatim>\<open>int\<close>.
\<close>

lemma sint_small: "unat (a :: uint) < 2 ^ 31 \<Longrightarrow> sint a = int (unat a)"
proof -
  assume a: "unat a < 2 ^ 31"
  have u: "uint a = int (unat a)" by simp
  from a have "int (unat a) < int (2 ^ 31)" by (simp only: of_nat_less_iff)
  then have "int (unat a) < 2 ^ 31" by simp
  with u have "uint a < 2 ^ 31" by simp
  moreover have "- (2 ^ 31) \<le> uint a" by (rule order_trans [of _ 0]) simp_all
  ultimately have "signed_take_bit 31 (uint a) = uint a"
    by (rule signed_take_bit_int_eq_self [rotated])
  then have "sint a = uint a" by (simp add: sint_uint)
  with u show ?thesis by simp
qed

lemma set_int_insert_set: "set (set_int_insert v xs) = insert v (set xs)"
proof (induction xs)
  case Nil
  then show ?case by simp
next
  case (Cons x xs)
  have "\<not> sint v < sint x \<Longrightarrow> \<not> sint x < sint v \<Longrightarrow> v = x"
    by (simp add: signed_word_eqI)
  with Cons show ?case by auto
qed

lemma set_int_insert_sorted:
  "sorted_wrt (\<lambda>a b. sint a < sint b) xs \<Longrightarrow> sorted_wrt (\<lambda>a b. sint a < sint b) (set_int_insert v xs)"
proof (induction xs)
  case Nil
  then show ?case by simp
next
  case (Cons x xs)
  then show ?case by (auto simp: set_int_insert_set)
qed

lemma std_set_int_fold:
  "sorted_wrt (\<lambda>a b. sint a < sint b) acc
   \<Longrightarrow> sorted_wrt (\<lambda>a b. sint a < sint b) (foldl (\<lambda>s v. set_int_insert v s) acc xs)
       \<and> set (foldl (\<lambda>s v. set_int_insert v s) acc xs) = set acc \<union> set xs"
proof (induction xs arbitrary: acc)
  case Nil
  then show ?case by simp
next
  case (Cons x xs)
  from Cons.IH [OF set_int_insert_sorted [OF Cons.prems, of x]]
  show ?case by (simp add: set_int_insert_set)
qed

lemma std_set_int_sorted: "sorted_wrt (\<lambda>a b. sint a < sint b) (std_set_int xs)"
  and std_set_int_set: "set (std_set_int xs) = set xs"
  using std_set_int_fold [of "[]" xs] by (simp_all add: std_set_int_def)

lemma signed_sorted_distinct: "sorted_wrt (\<lambda>a b. sint a < sint b) xs \<Longrightarrow> distinct xs"
  by (induction xs) auto

lemma std_set_int_distinct: "distinct (std_set_int xs)"
  using std_set_int_sorted by (rule signed_sorted_distinct)

lemma std_unique_distinct: "distinct xs \<Longrightarrow> snd (std_unique xs) = xs"
  by (simp add: std_unique_def remdups_adj_distinct)

lemma sorted_hd_Min: "sorted xs \<Longrightarrow> xs \<noteq> [] \<Longrightarrow> hd xs = Min (set xs)"
  by (cases xs) (auto intro!: Min_eqI [symmetric])

lemma sorted_last_Max: "sorted xs \<Longrightarrow> xs \<noteq> [] \<Longrightarrow> last xs = Max (set xs)"
proof (rule Max_eqI [symmetric])
  assume s: "sorted xs" and n: "xs \<noteq> []"
  show "finite (set xs)" by simp
  show "last xs \<in> set xs" using n by simp
  fix y assume "y \<in> set xs"
  then obtain i where i: "i < length xs" "xs ! i = y" by (auto simp: in_set_conv_nth)
  then have "xs ! i \<le> xs ! (length xs - 1)" using s by (intro sorted_nth_mono) auto
  with i n show "y \<le> last xs" by (simp add: last_conv_nth)
qed

lemma sorted_remdups_adj_distinct: "sorted xs \<Longrightarrow> distinct (remdups_adj xs)"
proof (induction xs rule: remdups_adj.induct)
  case (3 x y xs)
  then show ?case by (cases "x = y") auto
qed simp_all

lemma length_remdups_adj_sorted: "sorted xs \<Longrightarrow> length (remdups_adj xs) = card (set xs)"
  using distinct_card [OF sorted_remdups_adj_distinct, of xs] by simp

lemma signed_sorted_small:
  "sorted_wrt (\<lambda>a b. sint a < sint b) xs \<Longrightarrow> \<forall>v \<in> set xs. unat (v :: uint) < 2 ^ 31
   \<Longrightarrow> sorted_wrt (<) xs"
proof (induction xs)
  case Nil
  then show ?case by simp
next
  case (Cons x xs)
  have "\<And>y. y \<in> set xs \<Longrightarrow> x < y"
  proof -
    fix y assume y: "y \<in> set xs"
    with Cons.prems have "sint x < sint y" by simp
    moreover from y Cons.prems have "sint x = int (unat x)" "sint y = int (unat y)"
      by (simp_all add: sint_small)
    ultimately show "x < y" by (simp add: word_less_def)
  qed
  with Cons show ?case by simp
qed


lemma setParameterLimits_summary:
  assumes ps: "m_parInfo h = Some ps"
    and n: "0 < unat (m_nParInfoLength h)" "unat (m_nParInfoLength h) \<le> length ps"
    and vs: "vs = map scanParameter (take (unat (m_nParInfoLength h)) ps)"
  shows "\<exists>h'. setParameterLimits h = Inr h'
           \<and> m_minParameterValue h' = Min (set vs)
           \<and> m_maxParameterValue h' = Max (set vs)
           \<and> unat (m_NparameterValues h') = card (set vs)
           \<and> set (m_parameterValues h') = set vs
           \<and> distinct (m_parameterValues h')
           \<and> ((\<forall>v \<in> set vs. unat v < 2 ^ 31)
                \<longrightarrow> m_parameterValues h' = sorted_list_of_set (set vs))"
proof -
  let ?h' = "h\<lparr>m_parameterValues := std_set_int (sort vs),
                m_minParameterValue := hd (sort vs),
                m_maxParameterValue := last (sort vs),
                m_NparameterValues := of_nat (length (remdups_adj (sort vs)))\<rparr>"
  have len: "length vs = unat (m_nParInfoLength h)" using n vs by simp
  then have ne: "sort vs \<noteq> []" using n by (metis length_0_conv length_sort less_numeral_extra(3))
  have "snd (std_unique (std_set_int (sort vs))) = std_set_int (sort vs)"
    using std_set_int_distinct by (rule std_unique_distinct)
  then have run: "setParameterLimits h = Inr ?h'"
    using ps n vs ne by (simp add: setParameterLimits_def Let_def std_unique_def)
  have mn: "hd (sort vs) = Min (set vs)" using sorted_hd_Min [of "sort vs"] ne by simp
  have mx: "last (sort vs) = Max (set vs)" using sorted_last_Max [of "sort vs"] ne by simp
  have c: "length (remdups_adj (sort vs)) = card (set vs)"
    using length_remdups_adj_sorted [of "sort vs"] by simp
  have "card (set vs) \<le> length vs" by (rule card_length)
  also have "\<dots> < 2 ^ 32" using len unsigned_less [of "m_nParInfoLength h"] by simp
  finally have cnt: "unat (of_nat (card (set vs)) :: uint) = card (set vs)"
    by (simp add: of_nat_inverse)
  have small: "(\<forall>v \<in> set vs. unat v < 2 ^ 31)
                \<longrightarrow> std_set_int (sort vs) = sorted_list_of_set (set vs)"
  proof
    assume "\<forall>v \<in> set vs. unat v < 2 ^ 31"
    then have "\<forall>v \<in> set (std_set_int (sort vs)). unat v < 2 ^ 31"
      by (simp add: std_set_int_set)
    with std_set_int_sorted have "sorted_wrt (<) (std_set_int (sort vs))"
      by (rule signed_sorted_small)
    then have "sorted (std_set_int (sort vs)) \<and> distinct (std_set_int (sort vs))"
      by (simp add: strict_sorted_iff)
    then have "sorted_list_of_set (set (std_set_int (sort vs))) = std_set_int (sort vs)"
      by (simp add: sorted_list_of_set.idem_if_sorted_distinct)
    then show "std_set_int (sort vs) = sorted_list_of_set (set vs)"
      by (simp add: std_set_int_set)
  qed
  from run mn mx c cnt small std_set_int_distinct [of "sort vs"] show ?thesis
    by (simp add: std_set_int_set)
qed

lemma wide_not_le: "\<not> (3000000000 :: uint) \<le> 1"
  by (simp add: word_le_nat_alt)

text \<open>
  C5. For the entries 1 and 3000000000, \<^verbatim>\<open>addScanParameter\<close> records the minimum
  1, the maximum 3000000000 and the count 2, but the parameter values in the order
  3000000000, 1, which is not ascending: \<^verbatim>\<open>std::set<int>\<close> orders 3000000000 as
  the negative \<^verbatim>\<open>int\<close> of the same 32 bits.
\<close>

theorem addScanParameter_signed_order:
  "addScanParameter 2 2 junk 2 (Some wide_entries) (Histogram_new 0 0)
     = Inr ((Histogram_new 0 0)
         \<lparr>m_parInfo := Some wide_entries, m_nParInfoLength := 2,
          m_occupancy := Some [0, 0, 0, 0, 0, 0, 0, 0], m_NparameterValues := 2,
          m_minParameterValue := 1, m_maxParameterValue := 3000000000,
          m_parameterValues := [3000000000, 1]\<rparr>)
   \<and> \<not> sorted [3000000000, 1 :: uint]"
  by (simp add: wide_entries_def Histogram_new_def limit_defs Let_def upt_0_2 upt_0_8 wide_not_le)

text \<open>
  C6. For an empty sequence of entries \<^verbatim>\<open>setParameterLimits\<close> calls
  \<^verbatim>\<open>front()\<close> on an empty vector, which has no defined behaviour; the count it
  would go on to store is the number of distinct values, 0, and not 1.
\<close>

theorem addScanParameter_empty_entries:
  "addScanParameter C R junk 0 (Some []) (Histogram_new nMeta nPar) = Inl UndefinedBehaviour
   \<and> addScanParameter C R junk 0 None (Histogram_new nMeta nPar) = Inl UndefinedBehaviour
   \<and> (of_nat (fst (std_unique (sort ([] :: uint list)))) :: uint) = 0"
  by (simp add: Histogram_new_def limit_defs Let_def)

subsection \<open>Threshold and noise need two parameter values\<close>

text \<open>
  C7. With fewer than two distinct parameter values
  \<^verbatim>\<open>calculateThresholdScanArrays\<close> returns at once: the two arrays of the caller
  are as they were, whatever the arithmetic of the doubles.
\<close>

theorem calculateThresholdScanArrays_needs_two:
  "m_NparameterValues h < 2
   \<Longrightarrow> calculateThresholdScanArrays ops C R h rMuArray rSigmaArray = Inr (rMuArray, rSigmaArray)"
  by (simp add: calculateThresholdScanArrays_def)

theorem calculateThresholdScanArrays_needs_two_witness:
  "m_NparameterValues flat_run < 2
   \<and> calculateThresholdScanArrays exact_ops 2 2 flat_run [7, 7, 7, 7] [9, 9, 9, 9]
       = Inr ([7, 7, 7, 7], [9, 9, 9, 9])"
proof -
  have n: "m_NparameterValues flat_run < 2" by (simp add: run_defs)
  from calculateThresholdScanArrays_needs_two [OF n] n show ?thesis by simp
qed

text \<open>
  With two parameter values the estimator writes every pixel. Here the pixel of the
  first column and row has counted 100 hits at each of the two parameter values 10 and
  20, the other pixels none; the arithmetic is that of the real numbers.
\<close>

lemma calculateThresholdScanArrays_example:
  "calculateThresholdScanArrays exact_ops 2 2
     (scan_run\<lparr>m_occupancy := Some [100, 0, 0, 0, 100, 0, 0, 0]\<rparr>) [7, 7, 7, 7] [9, 9, 9, 9]
   = Inr ([0, 20, 20, 20], [0, 0, 0, 0])"
  by (simp add: calculateThresholdScanArrays_def pixelThresholdNoise_def exact_ops_def
      rounded_ops_def scan_run_def Histogram_new_def getMinParameter_def getMaxParameter_def getNparameters_def
      occupancyCells_def occupancyIndex_def Let_def upt_0_2)

subsection \<open>The constant of the noise\<close>

text \<open>
  Machin's formula and the alternating series of the arc tangent bound \<open>pi\<close> from
  above, below the literal of the source.
\<close>

lemma arctan_partial_sums:
  fixes x :: real
  assumes "0 \<le> x" and "x \<le> 1"
  shows "arctan_sum x (2 * n) \<le> arctan x"
    and "arctan x \<le> arctan_sum x (2 * n + 1)"
proof -
  let ?a = "\<lambda>k. 1 / real (k * 2 + 1) * x ^ (k * 2 + 1)"
  have lim: "?a \<longlonglongrightarrow> 0" using assms by (intro zeroseq_arctan_series) simp
  have pos: "0 \<le> ?a k" for k using assms by simp
  have dec: "?a (Suc k) \<le> ?a k" for k
  proof (rule mult_mono)
    show "1 / real (Suc k * 2 + 1) \<le> 1 / real (k * 2 + 1)" by (simp add: field_simps)
    show "x ^ (Suc k * 2 + 1) \<le> x ^ (k * 2 + 1)" using assms by (intro power_decreasing) simp_all
    show "0 \<le> 1 / real (k * 2 + 1)" by simp
    show "0 \<le> x ^ (Suc k * 2 + 1)" using assms by simp
  qed
  have ser: "arctan x = (\<Sum>k. (- 1) ^ k * ?a k)" using assms by (intro arctan_series) simp
  show "arctan_sum x (2 * n) \<le> arctan x"
    unfolding ser arctan_sum_def by (rule summable_Leibniz'(2) [OF lim pos dec])
  show "arctan x \<le> arctan_sum x (2 * n + 1)"
    unfolding ser arctan_sum_def by (rule summable_Leibniz'(4) [OF lim pos dec])
qed

lemma pi_upper: "pi < 3.1415926535898"
proof -
  have m: "pi = 16 * arctan (1 / 5) - 4 * arctan (1 / 239)" using machin by simp
  have u: "arctan (1 / 5) \<le> arctan_sum (1 / 5) (2 * 5 + 1)"
    by (rule arctan_partial_sums(2)) simp_all
  have l: "arctan_sum (1 / 239) (2 * 2) \<le> arctan (1 / 239)"
    by (rule arctan_partial_sums(1)) simp_all
  from u l show ?thesis unfolding m arctan_sum_def by (simp add: eval_nat_numeral)
qed

text \<open>The rounding of binary64 arithmetic has the two properties.\<close>

lemma round_even_error: "\<bar>of_int (round_even y) - y\<bar> \<le> 1 / 2"
proof -
  have "of_int \<lfloor>y\<rfloor> \<le> y" "y < of_int \<lfloor>y\<rfloor> + 1" by linarith+
  then show ?thesis by (auto simp: round_even_def Let_def)
qed

lemma round_even_of_int: "round_even (of_int k) = k"
  by (simp add: round_even_def)

lemma binary64_round_error:
  assumes "1 / 2 ^ 1022 \<le> \<bar>x\<bar>"
  shows "\<bar>binary64_round x - x\<bar> \<le> \<bar>x\<bar> / 2 ^ 53"
proof -
  define e where "e = \<lfloor>log 2 \<bar>x\<bar>\<rfloor>"
  define q :: real where "q = 2 powr of_int (e - 52)"
  have xpos: "0 < \<bar>x\<bar>" using assms by (smt (verit) divide_pos_pos zero_less_numeral zero_less_power)
  have "(1 :: real) / 2 ^ 1022 = 2 powr (- 1022)"
    by (simp add: powr_minus_divide powr_realpow [symmetric])
  with assms have "2 powr (- 1022) \<le> \<bar>x\<bar>" by simp
  then have "- 1022 \<le> log 2 \<bar>x\<bar>" using xpos by (simp add: le_log_iff)
  then have "- 1022 \<le> e" unfolding e_def by linarith
  then have ex: "binary64_exponent x = e" by (simp add: binary64_exponent_def e_def)
  have "of_int e \<le> log 2 \<bar>x\<bar>" unfolding e_def by linarith
  then have pe: "2 powr of_int e \<le> \<bar>x\<bar>" using xpos by (simp add: le_log_iff)
  have qpos: "0 < q" by (simp add: q_def)
  have qe: "q = 2 powr of_int e / 2 ^ 52"
    by (simp add: q_def powr_diff powr_realpow [symmetric])
  have "binary64_round x = q * of_int (round_even (x / q))"
    by (simp only: binary64_round_def ex q_def Let_def)
  then have "binary64_round x - x = q * (of_int (round_even (x / q)) - x / q)"
    using qpos by (simp add: algebra_simps)
  then have "\<bar>binary64_round x - x\<bar> = q * \<bar>of_int (round_even (x / q)) - x / q\<bar>"
    using qpos by (simp add: abs_mult)
  also have "\<dots> \<le> q * (1 / 2)" using qpos round_even_error by (intro mult_left_mono) simp_all
  also have "\<dots> = 2 powr of_int e / 2 ^ 53" by (simp add: qe)
  also have "\<dots> \<le> \<bar>x\<bar> / 2 ^ 53" using pe by (simp add: divide_right_mono)
  finally show ?thesis .
qed

lemma binary64_round_int:
  assumes "\<bar>k\<bar> \<le> 2 ^ 53"
  shows "binary64_round (of_int k) = of_int k"
proof (cases "k = 0")
  case True
  then show ?thesis by (simp add: binary64_round_def round_even_def)
next
  case False
  define a :: real where "a = \<bar>of_int k\<bar>"
  define e where "e = \<lfloor>log 2 a\<rfloor>"
  have a: "a = of_int \<bar>k\<bar>" by (simp add: a_def)
  from False have "1 \<le> \<bar>k\<bar>" by simp
  then have "(1 :: real) \<le> of_int \<bar>k\<bar>" by (simp only: of_int_1_le_iff)
  then have a1: "1 \<le> a" by (simp only: a)
  from assms have "real_of_int \<bar>k\<bar> \<le> of_int (2 ^ 53)" by (simp only: of_int_le_iff)
  then have a53: "a \<le> 2 ^ 53" by (simp add: a)
  have "0 \<le> log 2 a" using a1 by simp
  then have e0: "0 \<le> e" unfolding e_def by simp
  have p53: "(2 :: real) powr 53 = 2 ^ 53" using powr_realpow [of 2 53] by simp
  have "log 2 a \<le> 53" using a1 a53 p53 by (simp add: log_le_iff)
  then have e53: "e \<le> 53" unfolding e_def by (simp add: floor_le_iff)
  have ex: "binary64_exponent (of_int k) = e"
    using e0 by (simp add: binary64_exponent_def e_def a_def)
  show ?thesis
  proof (cases "e \<le> 52")
    case True
    define m where "m = nat (52 - e)"
    have "real_of_int (e - 52) = - real m" using True by (simp add: m_def)
    then have "(2 :: real) powr real_of_int (e - 52) = 2 powr (- real m)" by (simp only:)
    also have "\<dots> = inverse (2 powr real m)" by (rule powr_minus)
    also have "\<dots> = inverse (2 ^ m)" by (simp only: powr_realpow zero_less_numeral)
    finally have q: "(2 :: real) powr real_of_int (e - 52) = 1 / 2 ^ m"
      by (simp only: inverse_eq_divide)
    have "real_of_int k / (1 / 2 ^ m) = of_int (k * 2 ^ m)" by simp
    then have "round_even (real_of_int k / (1 / 2 ^ m)) = k * 2 ^ m"
      by (simp only: round_even_of_int)
    then show ?thesis by (simp add: binary64_round_def ex q Let_def del: of_int_diff)
  next
    case False
    with e53 have e: "e = 53" by simp
    have "of_int e \<le> log 2 a" unfolding e_def by simp
    then have "2 powr 53 \<le> a" using a1 e by (simp add: le_log_iff)
    then have "a = 2 ^ 53" using a53 p53 by simp
    then have "real_of_int \<bar>k\<bar> = of_int (2 ^ 53)" by (simp add: a)
    then have "\<bar>k\<bar> = 2 ^ 53" by (simp only: of_int_eq_iff)
    moreover have "even (2 ^ 53 :: int)" by simp
    ultimately have "even \<bar>k\<bar>" by (simp only:)
    then have "even k" by simp
    then have k: "k = 2 * (k div 2)" by simp
    have q: "(2 :: real) powr real_of_int (e - 52) = 2" using e by simp
    have "real_of_int k = 2 * of_int (k div 2)" by (subst k) (simp only: of_int_mult of_int_numeral)
    then have "real_of_int k / 2 = of_int (k div 2)" by simp
    then have "round_even (real_of_int k / 2) = k div 2" by (simp only: round_even_of_int)
    then show ?thesis using k by (simp add: binary64_round_def ex q Let_def del: of_int_diff)
  qed
qed

lemma binary64_round_is_rounding: "binary64_rounding binary64_round"
  using binary64_round_int binary64_round_error by (simp add: binary64_rounding_def)

text \<open>
  The estimator on \<open>scurve_run\<close>, and the gap that the roundings of the two
  computations cannot close: six roundings on each side change a value by less than
  the literal differs from \<open>pi\<close>.
\<close>

lemma rounding_int:
  assumes "binary64_rounding rnd"
  shows "rnd 0 = 0" "rnd 1 = 1" "rnd 2 = 2" "rnd 10 = 10" "rnd 20 = 20" "rnd 100 = 100"
    "rnd 1000 = 1000"
proof -
  have k: "rnd (of_int k) = of_int k" if "\<bar>k\<bar> \<le> 2 ^ 53" for k :: int
    using assms that by (simp add: binary64_rounding_def)
  show "rnd 0 = 0" using k [of 0] by simp
  show "rnd 1 = 1" using k [of 1] by simp
  show "rnd 2 = 2" using k [of 2] by simp
  show "rnd 10 = 10" using k [of 10] by simp
  show "rnd 20 = 20" using k [of 20] by simp
  show "rnd 100 = 100" using k [of 100] by simp
  show "rnd 1000 = 1000" using k [of 1000] by simp
qed

lemma rounding_bounds:
  assumes "binary64_rounding rnd" and "1 \<le> x" and "x \<le> 1000"
  shows "x * (1 - 1 / 2 ^ 53) \<le> rnd x" and "rnd x \<le> x * (1 + 1 / 2 ^ 53)"
proof -
  have "(1 :: real) / 2 ^ 1022 \<le> 1" by (simp add: divide_le_eq)
  then have lo: "1 / 2 ^ 1022 \<le> \<bar>x\<bar>" using assms(2) by simp
  have "(1000 :: real) \<le> 2 ^ 10" by simp
  also have "\<dots> \<le> 2 ^ 1023" by (rule power_increasing) simp_all
  finally have hi: "\<bar>x\<bar> \<le> 2 ^ 1023" using assms(2,3) by simp
  from assms(1) lo hi have "\<bar>rnd x - x\<bar> \<le> \<bar>x\<bar> / 2 ^ 53"
    by (simp add: binary64_rounding_def)
  with assms(2) have "\<bar>rnd x - x\<bar> \<le> x / 2 ^ 53" by simp
  then have d: "rnd x - x \<le> x / 2 ^ 53" "x - rnd x \<le> x / 2 ^ 53" by linarith+
  have e: "x * (1 - 1 / 2 ^ 53) = x - x / 2 ^ 53" "x * (1 + 1 / 2 ^ 53) = x + x / 2 ^ 53"
    by (simp_all only: right_diff_distrib distrib_left mult_1_right times_divide_eq_right)
  from d show "x * (1 - 1 / 2 ^ 53) \<le> rnd x" and "rnd x \<le> x * (1 + 1 / 2 ^ 53)"
    unfolding e by linarith+
qed

lemma scurve_run_noise:
  assumes "binary64_rounding rnd"
  shows "calculateThresholdScanArrays (rounded_ops rnd) 2 2 scurve_run [7, 7, 7, 7] [9, 9, 9, 9]
     = Inr ([10, 20, 20, 20],
            [rnd (10 * rnd (sqrt (rnd (rnd 3.141592653589893238462643383 / 2)))), 0, 0, 0])"
  using rounding_int [OF assms]
  by (simp add: calculateThresholdScanArrays_def pixelThresholdNoise_def rounded_ops_def
      scurve_run_def scan_run_def Histogram_new_def getMinParameter_def getMaxParameter_def
      getNparameters_def occupancyCells_def occupancyIndex_def Let_def upt_0_2)

lemma claimed_noise_eval:
  assumes "binary64_rounding rnd"
  shows "claimed_noise rnd 10 100 = rnd (10 * rnd (sqrt (rnd (rnd pi / 2))))"
  using rounding_int [OF assms] by (simp add: claimed_noise_def)

lemma numeric_gap:
  "(3.1415926535898 :: real) * (1 + 1 / 2 ^ 53) ^ 6
     < 3.141592653589893238462643383 * (1 - 1 / 2 ^ 53) ^ 6"
  by (simp add: field_simps)

lemma noise_gap:
  assumes r: "binary64_rounding rnd"
  shows "rnd (10 * rnd (sqrt (rnd (rnd pi / 2))))
         < rnd (10 * rnd (sqrt (rnd (rnd 3.141592653589893238462643383 / 2))))"
proof -
  define lo hi :: real where "lo = 1 - 1 / 2 ^ 53" and "hi = 1 + 1 / 2 ^ 53"
  define c :: real where "c = 3.141592653589893238462643383"
  define h1 s1 where "h1 = rnd (rnd c / 2)" and "s1 = rnd (sqrt h1)"
  define h2 s2 where "h2 = rnd (rnd pi / 2)" and "s2 = rnd (sqrt h2)"
  have lo: "0 < lo" "lo \<le> 1" "99 / 100 \<le> lo" and hi: "1 \<le> hi" "hi \<le> 101 / 100"
    by (simp_all add: lo_def hi_def)
  note b = rounding_bounds [OF r, folded lo_def hi_def]
  have pi3: "3 \<le> pi"
    using arctan_partial_sums(1) [of "1 / 5" 2] arctan_partial_sums(2) [of "1 / 239" 1] machin
    by (simp add: arctan_sum_def eval_nat_numeral)
  have pi4: "pi \<le> 4" using pi_less_4 by simp
  have c34: "3 \<le> c" "c \<le> 4" by (simp_all add: c_def)
  \<comment> \<open>a value between 3 and 4, halved, rounded, and its square root rounded\<close>
  have step: "x * lo \<le> rnd x \<and> rnd x \<le> x * hi
      \<and> rnd x / 2 * lo \<le> rnd (rnd x / 2) \<and> rnd (rnd x / 2) \<le> rnd x / 2 * hi
      \<and> 1 \<le> rnd (rnd x / 2) \<and> rnd (rnd x / 2) \<le> 4
      \<and> sqrt (rnd (rnd x / 2)) * lo \<le> rnd (sqrt (rnd (rnd x / 2)))
      \<and> rnd (sqrt (rnd (rnd x / 2))) \<le> sqrt (rnd (rnd x / 2)) * hi
      \<and> 1 \<le> 10 * rnd (sqrt (rnd (rnd x / 2))) \<and> 10 * rnd (sqrt (rnd (rnd x / 2))) \<le> 1000"
    if x: "3 \<le> x" "x \<le> 4" for x
  proof -
    have x1: "x * lo \<le> rnd x" "rnd x \<le> x * hi" using b [of x] x by simp_all
    have "3 * (99 / 100) \<le> x * lo" using x(1) lo by (intro mult_mono) simp_all
    moreover have "x * hi \<le> 4 * (101 / 100)" using x hi by (intro mult_mono) simp_all
    ultimately have rx: "29 / 10 \<le> rnd x" "rnd x \<le> 5" using x1 by linarith+
    then have "1 \<le> rnd x / 2" "rnd x / 2 \<le> 1000" by simp_all
    then have x2: "rnd x / 2 * lo \<le> rnd (rnd x / 2)" "rnd (rnd x / 2) \<le> rnd x / 2 * hi"
      using b [of "rnd x / 2"] by simp_all
    have "29 / 20 \<le> rnd x / 2" "rnd x / 2 \<le> 5 / 2" using rx by simp_all
    then have "29 / 20 * (99 / 100) \<le> rnd x / 2 * lo" "rnd x / 2 * hi \<le> 5 / 2 * (101 / 100)"
      using lo hi by (intro mult_mono; simp)+
    then have h1: "1 \<le> rnd (rnd x / 2)" and h4: "rnd (rnd x / 2) \<le> 4" using x2 by linarith+
    have sq: "1 \<le> sqrt (rnd (rnd x / 2))" "sqrt (rnd (rnd x / 2)) \<le> 2"
      using h1 h4 by (simp_all add: real_le_lsqrt)
    then have x3: "sqrt (rnd (rnd x / 2)) * lo \<le> rnd (sqrt (rnd (rnd x / 2)))"
      "rnd (sqrt (rnd (rnd x / 2))) \<le> sqrt (rnd (rnd x / 2)) * hi"
      using b [of "sqrt (rnd (rnd x / 2))"] by simp_all
    have "1 * (99 / 100) \<le> sqrt (rnd (rnd x / 2)) * lo" "sqrt (rnd (rnd x / 2)) * hi \<le> 2 * (101 / 100)"
      using sq lo hi by (intro mult_mono; simp)+
    then have "1 \<le> 10 * rnd (sqrt (rnd (rnd x / 2)))"
      "10 * rnd (sqrt (rnd (rnd x / 2))) \<le> 1000" using x3 by linarith+
    with x1 x2 h1 h4 x3 show ?thesis by blast
  qed
  have q: "pi < 3.1415926535898" by (rule pi_upper)
  \<comment> \<open>from the literal, from below\<close>
  from step [OF c34] have c1: "c * lo \<le> rnd c" and c2: "rnd c / 2 * lo \<le> h1"
    and c3: "1 \<le> h1" and c4: "sqrt h1 * lo \<le> s1"
    and c5: "1 \<le> 10 * s1" "10 * s1 \<le> 1000"
    by (simp_all add: h1_def s1_def)
  have n1: "10 * s1 * lo \<le> rnd (10 * s1)" using b(1) [OF c5] .
  have "c * lo / 2 * lo \<le> rnd c / 2 * lo" using c1 lo by (intro mult_right_mono) simp_all
  with c2 have h1_lo: "c * lo ^ 2 / 2 \<le> h1" by (simp add: power2_eq_square)
  have "10 * (sqrt h1 * lo) \<le> 10 * s1" using c4 by simp
  then have "10 * (sqrt h1 * lo) * lo \<le> 10 * s1 * lo" using lo by (intro mult_right_mono) simp_all
  with n1 have n1_lo: "10 * (sqrt h1 * lo ^ 2) \<le> rnd (10 * s1)"
    by (simp add: power2_eq_square mult.assoc)
  \<comment> \<open>from \<open>pi\<close>, from above\<close>
  from step [OF pi3 pi4] have p1: "rnd pi \<le> pi * hi" and p2: "h2 \<le> rnd pi / 2 * hi"
    and p3: "1 \<le> h2" and p4: "s2 \<le> sqrt h2 * hi"
    and p5: "1 \<le> 10 * s2" "10 * s2 \<le> 1000"
    by (simp_all add: h2_def s2_def)
  have n2: "rnd (10 * s2) \<le> 10 * s2 * hi" using b(2) [OF p5] .
  have "rnd pi / 2 * hi \<le> pi * hi / 2 * hi" using p1 hi by (intro mult_right_mono) simp_all
  with p2 have h2_hi: "h2 \<le> pi * hi ^ 2 / 2" by (simp add: power2_eq_square)
  have "10 * s2 \<le> 10 * (sqrt h2 * hi)" using p4 by simp
  then have "10 * s2 * hi \<le> 10 * (sqrt h2 * hi) * hi" using hi by (intro mult_right_mono) simp_all
  with n2 have n2_hi: "rnd (10 * s2) \<le> 10 * (sqrt h2 * hi ^ 2)"
    by (simp add: power2_eq_square mult.assoc)
  \<comment> \<open>the gap between the two\<close>
  have r4: "sqrt (x ^ 4) = x ^ 2" if "0 \<le> x" for x :: real
    using that by (intro real_sqrt_unique) simp_all
  have "h2 * hi ^ 4 \<le> pi * hi ^ 2 / 2 * hi ^ 4" using h2_hi hi by (intro mult_right_mono) simp_all
  also have "\<dots> = pi * hi ^ 6 / 2" by (simp add: power_add [symmetric])
  also have "\<dots> < 3.1415926535898 * hi ^ 6 / 2" using q hi by simp
  also have "\<dots> < c * lo ^ 6 / 2" using numeric_gap by (simp add: c_def lo_def hi_def)
  also have "\<dots> = c * lo ^ 2 / 2 * lo ^ 4" by (simp add: power_add [symmetric])
  also have "\<dots> \<le> h1 * lo ^ 4" using h1_lo lo by (intro mult_right_mono) simp_all
  finally have "sqrt (h2 * hi ^ 4) < sqrt (h1 * lo ^ 4)" by simp
  then have "sqrt h2 * hi ^ 2 < sqrt h1 * lo ^ 2"
    using r4 [of hi] r4 [of lo] lo hi by (simp add: real_sqrt_mult)
  with n1_lo n2_hi have "rnd (10 * s2) < rnd (10 * s1)" by linarith
  then show ?thesis by (simp add: s1_def s2_def h1_def h2_def c_def)
qed

text \<open>
  C8. On a sensor of two columns and two rows with the parameter values 10 and 20, let
  the first pixel have counted 50 hits at each value, so that \<open>d = 10\<close>, \<open>M = 100\<close>,
  the threshold is 10, \<open>mu1 = 100\<close> and \<open>mu2 = 0\<close>. In binary64 arithmetic, and
  under every rounding with its two properties, the noise that the estimator writes
  for the pixel is greater than \<open>d * (mu1 + mu2) / A * sqrt (pi / 2)\<close>: the literal
  of the source, \<^verbatim>\<open>3.141592653589893238462643383\<close>, differs from \<open>pi\<close> in the
  13th decimal.
\<close>

theorem noise_constant_is_not_pi:
  assumes "binary64_rounding rnd"
  shows "\<exists>noise. calculateThresholdScanArrays (rounded_ops rnd) 2 2 scurve_run
                    [7, 7, 7, 7] [9, 9, 9, 9]
                  = Inr ([10, 20, 20, 20], [noise, 0, 0, 0])
                \<and> claimed_noise rnd 10 100 < noise"
  using scurve_run_noise [OF assms] noise_gap [OF assms] claimed_noise_eval [OF assms]
  by simp

theorem noise_constant_is_not_pi_witness:
  "binary64_rounding binary64_round
   \<and> (\<exists>noise. calculateThresholdScanArrays (rounded_ops binary64_round) 2 2 scurve_run
                   [7, 7, 7, 7] [9, 9, 9, 9]
                 = Inr ([10, 20, 20, 20], [noise, 0, 0, 0])
               \<and> claimed_noise binary64_round 10 100 < noise)"
  using noise_constant_is_not_pi [OF binary64_round_is_rounding] binary64_round_is_rounding
  by simp

end
